theory Spec2Isabelle
  imports Main "HOL-Library.Word"
begin

section \<open>The C library as log.c uses it\<close>

text \<open>
  Bytes are \<^typ>\<open>char\<close>, C strings are the bytes before the first NUL.  The two
  characters the code tests for are named.
\<close>

definition NUL :: char where
  "NUL = CHR 0x00"

definition NL :: char where
  "NL = CHR 0x0A"

definition cstr :: "string \<Rightarrow> string" where
  \<comment> \<open>the C string that starts at the first byte of a byte sequence\<close>
  "cstr bs = takeWhile (\<lambda>c. c \<noteq> NUL) bs"

definition strlen :: "string \<Rightarrow> nat option" where
  \<comment> \<open>\<open>strlen\<close> on an array: with no NUL in the array the read runs past its end\<close>
  "strlen b = (if NUL \<in> set b then Some (length (cstr b)) else None)"

subsection \<open>Decimal and pointer rendering\<close>

definition digit :: "nat \<Rightarrow> char" where
  "digit d = ''0123456789abcdef'' ! d"

fun dec_nat :: "nat \<Rightarrow> string" where
  "dec_nat n = (if n < 10 then [digit n] else dec_nat (n div 10) @ [digit (n mod 10)])"

fun hex_nat :: "nat \<Rightarrow> string" where
  "hex_nat n = (if n < 16 then [digit n] else hex_nat (n div 16) @ [digit (n mod 16)])"

declare dec_nat.simps [simp del] hex_nat.simps [simp del]

definition zero_pad :: "nat \<Rightarrow> string \<Rightarrow> string" where
  "zero_pad w s = replicate (w - length s) (CHR ''0'') @ s"

definition fmt_d :: "int \<Rightarrow> string" where
  \<comment> \<open>\<open>%d\<close>\<close>
  "fmt_d i = (if i < 0 then CHR ''-'' # dec_nat (nat (- i)) else dec_nat (nat i))"

definition fmt_03d :: "int \<Rightarrow> string" where
  \<comment> \<open>\<open>%03d\<close>: zero padding to a field of three, the sign counted in the field\<close>
  "fmt_03d i = (if i < 0 then CHR ''-'' # zero_pad 2 (dec_nat (nat (- i)))
                else zero_pad 3 (dec_nat (nat i)))"

definition fmt_p :: "nat \<Rightarrow> string" where
  \<comment> \<open>\<open>%p\<close> as glibc prints it (the C standard leaves the form to the implementation)\<close>
  "fmt_p a = (if a = 0 then ''(nil)'' else ''0x'' @ hex_nat a)"

subsection \<open>The printf family\<close>

text \<open>
  The variadic arguments, and the conversions that log.c itself uses:
  \<open>%s\<close>, \<open>%d\<close>, \<open>%03d\<close>, \<open>%u\<close> (the expansion of \<open>PRIu32\<close>), \<open>%p\<close>, and \<open>%%\<close>.
  A format ends at its first NUL.  The result \<open>None\<close> stands for a call that
  fails (a negative return value); a conversion outside the list above, or one
  whose argument has the wrong type, is not modelled and is treated as such a
  failure.
\<close>

datatype arg = AInt int | AUInt nat | AStr string | APtr nat

fun vformat :: "string \<Rightarrow> arg list \<Rightarrow> string option" where
  "vformat [] args = Some []"
| "vformat (c # fs) args =
     (if c = NUL then Some []
      else if c \<noteq> CHR ''%'' then map_option (\<lambda>r. c # r) (vformat fs args)
      else (case fs of
              [] \<Rightarrow> None
            | d # fs' \<Rightarrow>
                if d = CHR ''%'' then map_option (\<lambda>r. CHR ''%'' # r) (vformat fs' args)
                else if d = CHR ''s'' then
                  (case args of
                     AStr s # as \<Rightarrow> map_option (\<lambda>r. cstr s @ r) (vformat fs' as)
                   | _ \<Rightarrow> None)
                else if d = CHR ''d'' then
                  (case args of
                     AInt i # as \<Rightarrow> map_option (\<lambda>r. fmt_d i @ r) (vformat fs' as)
                   | _ \<Rightarrow> None)
                else if d = CHR ''u'' then
                  (case args of
                     AUInt n # as \<Rightarrow> map_option (\<lambda>r. dec_nat n @ r) (vformat fs' as)
                   | _ \<Rightarrow> None)
                else if d = CHR ''p'' then
                  (case args of
                     APtr a # as \<Rightarrow> map_option (\<lambda>r. fmt_p a @ r) (vformat fs' as)
                   | _ \<Rightarrow> None)
                else if d = CHR ''0'' then
                  (case fs' of
                     w # e # fs'' \<Rightarrow>
                       if w = CHR ''3'' \<and> e = CHR ''d'' then
                         (case args of
                            AInt i # as \<Rightarrow> map_option (\<lambda>r. fmt_03d i @ r) (vformat fs'' as)
                          | _ \<Rightarrow> None)
                       else None
                   | _ \<Rightarrow> None)
                else None))"

definition store :: "string \<Rightarrow> nat \<Rightarrow> string \<Rightarrow> string" where
  \<comment> \<open>the array \<open>b\<close> with the bytes \<open>bs\<close> written from index \<open>off\<close> on\<close>
  "store b off bs = take off b @ bs @ drop (off + length bs) b"

definition c_snprintf :: "string \<Rightarrow> string \<Rightarrow> nat \<Rightarrow> nat \<Rightarrow> string \<Rightarrow> arg list \<Rightarrow> string \<times> int" where
  \<comment> \<open>\<open>snprintf(b + off, n, fmt, ...)\<close> and \<open>vsnprintf\<close> (C99): at most \<open>n - 1\<close> bytes
      and a NUL are written, nothing when \<open>n = 0\<close>, and the length of the whole
      rendering is returned.  A failing call returns \<open>-1\<close> and leaves indeterminate
      bytes \<open>junk\<close> in the \<open>n\<close> bytes it was given.\<close>
  "c_snprintf junk b off n fmt args =
     (case vformat fmt args of
        Some s \<Rightarrow> (if n = 0 then b else store b off (take (n - 1) s @ [NUL]), int (length s))
      | None \<Rightarrow> (store b off (take n junk), - 1))"

section \<open>The line formatter of w_log\<close>

definition BUFSZ :: nat where
  \<comment> \<open>\<open>sizeof(buf)\<close> for \<open>char buf[4096]\<close>\<close>
  "BUFSZ = 4096"

definition stack_array :: "string \<Rightarrow> string" where
  \<comment> \<open>an uninitialised \<open>char buf[4096]\<close>: whatever bytes the stack held\<close>
  "stack_array garbage = take BUFSZ (garbage @ replicate BUFSZ NUL)"

definition render_line ::
  "string \<Rightarrow> string \<Rightarrow> string \<Rightarrow> int \<Rightarrow> string \<Rightarrow> string \<Rightarrow> arg list \<Rightarrow> string option" where
  \<comment> \<open>lines 153 to 162 of log.c: the contents of \<open>buf\<close> after the two printf calls.
      \<open>None\<close> is undefined behaviour: \<open>buf + len\<close> points outside the array.\<close>
  "render_line garbage junk timebuf ms name fmt args =
     (let (buf1, len) = c_snprintf junk (stack_array garbage) 0 BUFSZ
                          ''%s,%03d: [%s] '' [AStr timebuf, AInt ms, AStr name]
      in if len < 0 \<or> int BUFSZ < len then None
         else
           let (buf2, len2) = c_snprintf junk buf1 (nat len) (BUFSZ - nat len) fmt args
           in Some (if len2 = - 1 then buf2[BUFSZ - 1 := NUL] else buf2))"

definition ensure_newline :: "string \<Rightarrow> (string \<times> nat) option" where
  \<comment> \<open>lines 164 to 174 of log.c: the final contents of \<open>buf\<close> and the final \<open>len\<close>.
      \<open>None\<close> is undefined behaviour: \<open>strlen\<close> finds no NUL, or \<open>buf[-1]\<close> is read.\<close>
  "ensure_newline buf =
     (case strlen buf of
        None \<Rightarrow> None
      | Some len \<Rightarrow>
          if len = 0 then None
          else if buf ! (len - 1) \<noteq> NL then
            (if len < BUFSZ - 1 then Some (buf[len := NL, len + 1 := NUL], len + 1)
             else Some (buf[len - 1 := NL], len))
          else Some (buf, len))"

definition format_line ::
  "string \<Rightarrow> string \<Rightarrow> string \<Rightarrow> int \<Rightarrow> string \<Rightarrow> string \<Rightarrow> arg list \<Rightarrow> (string \<times> nat) option" where
  \<comment> \<open>lines 153 to 174 of log.c\<close>
  "format_line garbage junk timebuf ms name fmt args =
     (case render_line garbage junk timebuf ms name fmt args of
        None \<Rightarrow> None
      | Some buf \<Rightarrow> ensure_newline buf)"

definition line_prefix :: "string \<Rightarrow> int \<Rightarrow> string \<Rightarrow> string" where
  \<comment> \<open>the text that \<open>"%s,%03d: [%s] "\<close> stands for\<close>
  "line_prefix timebuf ms name =
     cstr timebuf @ '','' @ fmt_03d ms @ '': ['' @ cstr name @ ''] ''"

section \<open>The environment and the state of the process\<close>

type_synonym tid = "64 word"  \<comment> \<open>\<open>pthread_t\<close>, as wide as \<open>uintptr_t\<close>\<close>
type_synonym addr = nat        \<comment> \<open>a non-null heap address\<close>

record timeval =
  tv_sec :: int
  tv_usec :: int

text \<open>
  What log.c takes from watchman.h, from the platform and from the rest of the
  daemon: the two severity constants, the client gate, the clock, the time zone,
  the stack-capture support and the frames it would report, the text of
  \<open>strsignal\<close>, and the indeterminate bytes of an uninitialised array and of a
  failed \<open>vsnprintf\<close>.
\<close>

record env =
  W_LOG_ERR :: int
  W_LOG_FATAL :: int
  w_should_log_to_clients :: "int \<Rightarrow> bool"
  gettimeofday :: "nat \<Rightarrow> timeval"        \<comment> \<open>the clock at its k-th reading\<close>
  strftime_local :: "int \<Rightarrow> string"       \<comment> \<open>\<open>localtime_r\<close>, then \<open>strftime\<close> with \<open>%Y-%m-%dT%H:%M:%S\<close>\<close>
  HAVE_BACKTRACE :: bool                   \<comment> \<open>\<open>HAVE_BACKTRACE\<close> and \<open>HAVE_BACKTRACE_SYMBOLS\<close>\<close>
  callstack :: "string list"               \<comment> \<open>the symbolised frames of the stack, innermost first\<close>
  strsignal :: "int \<Rightarrow> string"
  stack_garbage :: string
  vsn_junk :: string

datatype sink_event =
    Stderr string          \<comment> \<open>\<open>write(STDERR_FILENO, buf, len)\<close>: the bytes written\<close>
  | ToClients int string   \<comment> \<open>\<open>w_log_to_clients(level, buf)\<close>: the level and the C string\<close>

record state =
  log_level :: int                     \<comment> \<open>the global \<open>log_level\<close>\<close>
  tls :: "tid \<Rightarrow> addr option"          \<comment> \<open>the value of \<open>thread_name_key\<close> in each thread\<close>
  heap :: "addr \<Rightarrow> string option"      \<comment> \<open>the allocated strings\<close>
  next_addr :: addr                    \<comment> \<open>the allocator hands out fresh addresses\<close>
  ticks :: nat                         \<comment> \<open>how often the clock has been read\<close>
  out :: "sink_event list"             \<comment> \<open>what has reached the two sinks, oldest first\<close>
  fmt_calls :: nat                     \<comment> \<open>the calls of the printf family so far\<close>
  bt_calls :: nat                      \<comment> \<open>the calls of \<open>backtrace\<close> so far\<close>

text \<open>
  A call either returns, or ends the process in \<open>abort()\<close>, or has no defined
  behaviour.
\<close>

datatype result = Undefined | Returns state | Aborts state

section \<open>Thread names\<close>

definition c_free :: "addr option \<Rightarrow> state \<Rightarrow> state" where
  \<comment> \<open>\<open>free(p)\<close>; \<open>free(NULL)\<close> does nothing\<close>
  "c_free p st = (case p of None \<Rightarrow> st | Some a \<Rightarrow> st\<lparr>heap := (heap st)(a := None)\<rparr>)"

definition c_vasprintf :: "state \<Rightarrow> string \<Rightarrow> arg list \<Rightarrow> addr option \<times> state" where
  \<comment> \<open>\<open>vasprintf(&name, fmt, ap)\<close> with \<open>name\<close> initialised to \<open>NULL\<close>: a fresh
      allocation holding the rendering; \<open>name\<close> stays \<open>NULL\<close> when the call fails.
      Allocation itself is taken to succeed.\<close>
  "c_vasprintf st fmt args =
     (case vformat fmt args of
        None \<Rightarrow> (None, st\<lparr>fmt_calls := fmt_calls st + 1\<rparr>)
      | Some s \<Rightarrow>
          (Some (next_addr st),
           st\<lparr>heap := (heap st)(next_addr st \<mapsto> s),
              next_addr := next_addr st + 1,
              fmt_calls := fmt_calls st + 1\<rparr>))"

definition w_set_thread_name :: "tid \<Rightarrow> state \<Rightarrow> string \<Rightarrow> arg list \<Rightarrow> addr option \<times> state" where
  "w_set_thread_name self st fmt args =
     (let st1 = c_free (tls st self) st;
          (name, st2) = c_vasprintf st1 fmt args
      in (name, st2\<lparr>tls := (tls st2)(self := name)\<rparr>))"

definition w_get_thread_name :: "tid \<Rightarrow> state \<Rightarrow> addr option \<times> state" where
  "w_get_thread_name self st =
     (case tls st self of
        Some name \<Rightarrow> (Some name, st)
      | None \<Rightarrow> w_set_thread_name self st ''%u'' [AUInt (unat (ucast self :: 32 word))])"

definition name_string :: "state \<Rightarrow> addr option \<Rightarrow> string option" where
  \<comment> \<open>the string a name pointer points to, if it points to one\<close>
  "name_string st p = (case p of None \<Rightarrow> None | Some a \<Rightarrow> heap st a)"

definition tls_valid :: "state \<Rightarrow> bool" where
  \<comment> \<open>every thread's name is an allocated string of its own\<close>
  "tls_valid st \<longleftrightarrow>
     (\<forall>t a. tls st t = Some a \<longrightarrow> heap st a \<noteq> None \<and> a < next_addr st) \<and>
     (\<forall>t u a. tls st t = Some a \<and> tls st u = Some a \<longrightarrow> t = u)"

section \<open>The log entry point\<close>

definition c_int :: "int \<Rightarrow> int" where
  \<comment> \<open>the cast \<open>(int)\<close> of a \<open>long\<close>\<close>
  "c_int x = sint (word_of_int x :: 32 word)"

definition c_div :: "int \<Rightarrow> int \<Rightarrow> int" where
  \<comment> \<open>C's \<open>/\<close> truncates towards zero\<close>
  "c_div a b = sgn a * sgn b * (\<bar>a\<bar> div \<bar>b\<bar>)"

fun log_frames ::
  "(state \<Rightarrow> int \<Rightarrow> string \<Rightarrow> arg list \<Rightarrow> result option) \<Rightarrow> env \<Rightarrow> state \<Rightarrow> string list \<Rightarrow> result option" where
  \<comment> \<open>the loop of \<open>log_stack_trace\<close>\<close>
  "log_frames logf e st [] = Some (Returns st)"
| "log_frames logf e st (s # ss) =
     (case logf st (W_LOG_ERR e) ''%s\<newline>'' [AStr s] of
        Some (Returns st') \<Rightarrow> log_frames logf e st' ss
      | r \<Rightarrow> r)"

definition log_stack_trace ::
  "(state \<Rightarrow> int \<Rightarrow> string \<Rightarrow> arg list \<Rightarrow> result option) \<Rightarrow> env \<Rightarrow> state \<Rightarrow> result option" where
  \<comment> \<open>\<open>logf\<close> is \<open>w_log\<close>, which this function calls back; \<open>backtrace\<close> fills an
      array of 24 frames\<close>
  "log_stack_trace logf e st =
     (if HAVE_BACKTRACE e then
        let strings = take 24 (callstack e);
            st1 = st\<lparr>bt_calls := bt_calls st + 1\<rparr>
        in case logf st1 (W_LOG_ERR e) ''Fatal error detected at:\<newline>'' [] of
             Some (Returns st2) \<Rightarrow> log_frames logf e st2 strings
           | r \<Rightarrow> r
      else Some (Returns st))"

text \<open>
  \<open>w_log\<close> calls \<open>log_stack_trace\<close>, which calls \<open>w_log\<close>: the first argument
  bounds the depth of that recursion, and \<open>None\<close> is a call that has not come back
  within the bound.
\<close>

primrec w_log :: "nat \<Rightarrow> env \<Rightarrow> tid \<Rightarrow> state \<Rightarrow> int \<Rightarrow> string \<Rightarrow> arg list \<Rightarrow> result option" where
  "w_log 0 e self st level fmt args = None"
| "w_log (Suc k) e self st level fmt args =
     (let should_log_to_stderr = (level \<le> log_level st);
          should_log_to_clients = w_should_log_to_clients e level
      in if \<not> (should_log_to_stderr \<or> should_log_to_clients) then Some (Returns st)
         else
           let fatal = (level = W_LOG_FATAL e);
               level' = (if level = W_LOG_FATAL e then W_LOG_ERR e else level);
               tv = gettimeofday e (ticks st);
               st1 = st\<lparr>ticks := ticks st + 1\<rparr>;
               timebuf = take 63 (cstr (strftime_local e (tv_sec tv)));
               (name, st2) = w_get_thread_name self st1
           in case name_string st2 name of
                None \<Rightarrow> Some Undefined
              | Some nm \<Rightarrow>
                  (case format_line (stack_garbage e) (vsn_junk e) timebuf
                          (c_div (c_int (tv_usec tv)) 1000) nm fmt args of
                     None \<Rightarrow> Some Undefined
                   | Some (buf, len) \<Rightarrow>
                       let st3 = st2\<lparr>fmt_calls := fmt_calls st2 + 2\<rparr>;
                           st4 = (if should_log_to_stderr
                                  then st3\<lparr>out := out st3 @ [Stderr (take len buf)]\<rparr> else st3);
                           st5 = (if should_log_to_clients
                                  then st4\<lparr>out := out st4 @ [ToClients level' (cstr buf)]\<rparr> else st4)
                       in if fatal then
                            (case log_stack_trace (w_log k e self) e st5 of
                               Some (Returns st6) \<Rightarrow> Some (Aborts st6)
                             | r \<Rightarrow> r)
                          else Some (Returns st5)))"

section \<open>The crash handler\<close>

text \<open>The constants of \<open>signal.h\<close> that the handler compares with.\<close>

record sigdefs =
  SIGILL :: int
  SIGFPE :: int
  SIGSEGV :: int
  SIGBUS :: "int option"   \<comment> \<open>\<open>None\<close> where the platform does not define \<open>SIGBUS\<close>\<close>
  ILL_ILLOPC :: int
  ILL_ILLOPN :: int
  ILL_ILLADR :: int
  ILL_ILLTRP :: int
  ILL_PRVOPC :: int
  ILL_PRVREG :: int
  ILL_COPROC :: int
  ILL_BADSTK :: int
  FPE_INTDIV :: int
  FPE_INTOVF :: int
  FPE_FLTDIV :: int
  FPE_FLTOVF :: int
  FPE_FLTUND :: int
  FPE_FLTRES :: int
  FPE_FLTINV :: int
  FPE_FLTSUB :: int
  SEGV_MAPERR :: int
  SEGV_ACCERR :: int
  BUS_ADRALN :: int
  BUS_ADRERR :: int

record siginfo =
  si_signo :: int
  si_code :: int
  si_value :: nat   \<comment> \<open>\<open>si_value.sival_ptr\<close>, 0 for \<open>NULL\<close>\<close>

definition fault_reason :: "sigdefs \<Rightarrow> siginfo option \<Rightarrow> string" where
  \<comment> \<open>the two nested switches of \<open>crash_handler\<close>\<close>
  "fault_reason d si =
     (case si of
        None \<Rightarrow> []
      | Some i \<Rightarrow>
          if si_signo i = SIGILL d then
            (if si_code i = ILL_ILLOPC d then ''illegal opcode''
             else if si_code i = ILL_ILLOPN d then ''illegal operand''
             else if si_code i = ILL_ILLADR d then ''illegal addressing mode''
             else if si_code i = ILL_ILLTRP d then ''illegal trap''
             else if si_code i = ILL_PRVOPC d then ''privileged opcode''
             else if si_code i = ILL_PRVREG d then ''privileged register''
             else if si_code i = ILL_COPROC d then ''co-processor error''
             else if si_code i = ILL_BADSTK d then ''internal stack error''
             else [])
          else if si_signo i = SIGFPE d then
            (if si_code i = FPE_INTDIV d then ''integer divide by zero''
             else if si_code i = FPE_INTOVF d then ''integer overflow''
             else if si_code i = FPE_FLTDIV d then ''floating point divide by zero''
             else if si_code i = FPE_FLTOVF d then ''floating point overflow''
             else if si_code i = FPE_FLTUND d then ''floating point underflow''
             else if si_code i = FPE_FLTRES d then ''floating point inexact result''
             else if si_code i = FPE_FLTINV d then ''invalid floating point operation''
             else if si_code i = FPE_FLTSUB d then ''subscript out of range''
             else [])
          else if si_signo i = SIGSEGV d then
            (if si_code i = SEGV_MAPERR d then ''address not mapped to object''
             else if si_code i = SEGV_ACCERR d then ''invalid permissions for mapped object''
             else [])
          else if Some (si_signo i) = SIGBUS d then
            (if si_code i = BUS_ADRALN d then ''invalid address alignment''
             else if si_code i = BUS_ADRERR d then ''non-existent physical address''
             else [])
          else [])"

definition crash_handler ::
  "nat \<Rightarrow> sigdefs \<Rightarrow> env \<Rightarrow> tid \<Rightarrow> state \<Rightarrow> int \<Rightarrow> siginfo option \<Rightarrow> result option" where
  "crash_handler k d e self st signo si =
     w_log k e self st (W_LOG_FATAL e)
       ''Terminating due to signal %d %s. %s (%p)\<newline>''
       [AInt signo, AStr (strsignal e signo), AStr (fault_reason d si),
        APtr (case si of None \<Rightarrow> 0 | Some i \<Rightarrow> si_value i)]"

section \<open>A sample process\<close>

text \<open>
  A concrete environment and state on which the theorems below are instantiated:
  error severity 1, fatal severity 3, clients that take error lines, a clock that
  advances by one second per reading, and a process at the default level
  (\<open>int log_level = W_LOG_ERR\<close>) whose threads have no name yet.
\<close>

definition sample_env :: env where
  "sample_env =
     \<lparr>W_LOG_ERR = 1, W_LOG_FATAL = 3,
      w_should_log_to_clients = (\<lambda>l. l \<le> 1),
      gettimeofday = (\<lambda>k. \<lparr>tv_sec = int k, tv_usec = 42000\<rparr>),
      strftime_local = (\<lambda>s. ''2012-05-01T12:00:0'' @ dec_nat (nat s)),
      HAVE_BACKTRACE = True,
      callstack = [''w_log+0x1f'', ''main+0x10''],
      strsignal = (\<lambda>s. ''Segmentation fault''),
      stack_garbage = ''xyz'',
      vsn_junk = ''junk''\<rparr>"

definition sample_state :: state where
  "sample_state =
     \<lparr>log_level = 1, tls = (\<lambda>t. None), heap = (\<lambda>a. None), next_addr = 1,
      ticks = 0, out = [], fmt_calls = 0, bt_calls = 0\<rparr>"

definition named_state :: state where
  \<comment> \<open>the sample process after thread 5 has called \<open>w_set_thread_name("listener")\<close>\<close>
  "named_state = snd (w_set_thread_name 5 sample_state ''listener'' [])"

definition low_fatal_env :: env where
  \<comment> \<open>the sample environment with the fatal severity numbered below the error
      severity, and clients that take error lines only\<close>
  "low_fatal_env = sample_env\<lparr>W_LOG_FATAL := 0, w_should_log_to_clients := (\<lambda>l. l = 1)\<rparr>"

definition quiet_state :: state where
  "quiet_state = sample_state\<lparr>log_level := - 1\<rparr>"

definition open_env :: env where
  \<comment> \<open>the sample environment with clients that take every line\<close>
  "open_env = sample_env\<lparr>w_should_log_to_clients := (\<lambda>l. True)\<rparr>"

definition verbose_state :: state where
  \<comment> \<open>the sample process with the level raised to the fatal value\<close>
  "verbose_state = sample_state\<lparr>log_level := 3\<rparr>"


section \<open>The line as the specification describes it\<close>

text \<open>
  The specification's description of a formatted line, to compare the code with:
  the prefix and the rendered message, cut to what the buffer holds besides its NUL,
  and a newline appended if the text does not end in one, or written over the last
  character if the buffer is full.
\<close>

definition with_newline :: "string \<Rightarrow> string" where
  "with_newline r =
     (if last r = NL then r
      else if length r < BUFSZ - 1 then r @ [NL]
      else butlast r @ [NL])"

definition log_line :: "string \<Rightarrow> int \<Rightarrow> string \<Rightarrow> string \<Rightarrow> string" where
  "log_line timebuf ms name msg =
     with_newline (take (BUFSZ - 1) (line_prefix timebuf ms name @ msg))"

section \<open>What one call of w_log does\<close>

text \<open>
  Names for the parts of a call, in which the theorems below describe it: the two
  values taken from the clock at its k-th reading, the name that
  \<open>w_get_thread_name\<close> yields in a state, the sink events of one line, the state
  after the line has been dispatched, and the bytes of a formatted buffer that
  \<open>write\<close> sends.
\<close>

definition clock_text :: "env \<Rightarrow> nat \<Rightarrow> string" where
  "clock_text e k = take 63 (cstr (strftime_local e (tv_sec (gettimeofday e k))))"

definition clock_ms :: "env \<Rightarrow> nat \<Rightarrow> int" where
  "clock_ms e k = c_div (c_int (tv_usec (gettimeofday e k))) 1000"

definition thread_name :: "tid \<Rightarrow> state \<Rightarrow> string" where
  "thread_name self st =
     (case tls st self of
        None \<Rightarrow> dec_nat (unat (ucast self :: 32 word))
      | Some a \<Rightarrow> (case heap st a of None \<Rightarrow> [] | Some s \<Rightarrow> s))"

definition sink_events :: "env \<Rightarrow> state \<Rightarrow> int \<Rightarrow> int \<Rightarrow> string \<Rightarrow> sink_event list" where
  \<comment> \<open>the gates are asked about \<open>asked\<close>, the clients are told \<open>told\<close>\<close>
  "sink_events e st asked told line =
     (if asked \<le> log_level st then [Stderr line] else []) @
     (if w_should_log_to_clients e asked then [ToClients told line] else [])"

definition logged :: "tid \<Rightarrow> state \<Rightarrow> sink_event list \<Rightarrow> state" where
  "logged self st evs =
     (let st2 = snd (w_get_thread_name self (st\<lparr>ticks := ticks st + 1\<rparr>))
      in st2\<lparr>fmt_calls := fmt_calls st2 + 2, out := out st2 @ evs\<rparr>)"

definition written :: "(string \<times> nat) option \<Rightarrow> string option" where
  "written r = (case r of None \<Rightarrow> None | Some (buf, len) \<Rightarrow> Some (take len buf))"

section \<open>The lines of the stack trace\<close>

definition trace_messages :: "env \<Rightarrow> string list" where
  \<comment> \<open>the header and the frames as \<open>log_stack_trace\<close> words them, in its order\<close>
  "trace_messages e =
     ''Fatal error detected at:\<newline>'' # map (\<lambda>s. cstr s @ [NL]) (take 24 (callstack e))"

fun logged_lines :: "env \<Rightarrow> tid \<Rightarrow> state \<Rightarrow> string list \<Rightarrow> state" where
  \<comment> \<open>the state after one error-severity line for each message, each with its own
      reading of the clock\<close>
  "logged_lines e self s [] = s"
| "logged_lines e self s (m # ms) =
     logged_lines e self
       (logged self s
          (sink_events e s (W_LOG_ERR e) (W_LOG_ERR e)
             (log_line (clock_text e (ticks s)) (clock_ms e (ticks s)) (thread_name self s) m)))
       ms"

section \<open>The fault table\<close>

text \<open>
  The specification's lookup table from (signal, sub-code) pairs to reasons, to
  compare the nested switches with.
\<close>

definition fault_table :: "sigdefs \<Rightarrow> ((int \<times> int) \<times> string) list" where
  "fault_table d =
     [((SIGILL d, ILL_ILLOPC d), ''illegal opcode''),
      ((SIGILL d, ILL_ILLOPN d), ''illegal operand''),
      ((SIGILL d, ILL_ILLADR d), ''illegal addressing mode''),
      ((SIGILL d, ILL_ILLTRP d), ''illegal trap''),
      ((SIGILL d, ILL_PRVOPC d), ''privileged opcode''),
      ((SIGILL d, ILL_PRVREG d), ''privileged register''),
      ((SIGILL d, ILL_COPROC d), ''co-processor error''),
      ((SIGILL d, ILL_BADSTK d), ''internal stack error''),
      ((SIGFPE d, FPE_INTDIV d), ''integer divide by zero''),
      ((SIGFPE d, FPE_INTOVF d), ''integer overflow''),
      ((SIGFPE d, FPE_FLTDIV d), ''floating point divide by zero''),
      ((SIGFPE d, FPE_FLTOVF d), ''floating point overflow''),
      ((SIGFPE d, FPE_FLTUND d), ''floating point underflow''),
      ((SIGFPE d, FPE_FLTRES d), ''floating point inexact result''),
      ((SIGFPE d, FPE_FLTINV d), ''invalid floating point operation''),
      ((SIGFPE d, FPE_FLTSUB d), ''subscript out of range''),
      ((SIGSEGV d, SEGV_MAPERR d), ''address not mapped to object''),
      ((SIGSEGV d, SEGV_ACCERR d), ''invalid permissions for mapped object'')] @
     (case SIGBUS d of
        None \<Rightarrow> []
      | Some b \<Rightarrow>
          [((b, BUS_ADRALN d), ''invalid address alignment''),
           ((b, BUS_ADRERR d), ''non-existent physical address'')])"

definition linux_sigdefs :: sigdefs where
  \<comment> \<open>the values of Linux on x86\<close>
  "linux_sigdefs =
     \<lparr>SIGILL = 4, SIGFPE = 8, SIGSEGV = 11, SIGBUS = Some 7,
      ILL_ILLOPC = 1, ILL_ILLOPN = 2, ILL_ILLADR = 3, ILL_ILLTRP = 4,
      ILL_PRVOPC = 5, ILL_PRVREG = 6, ILL_COPROC = 7, ILL_BADSTK = 8,
      FPE_INTDIV = 1, FPE_INTOVF = 2, FPE_FLTDIV = 3, FPE_FLTOVF = 4,
      FPE_FLTUND = 5, FPE_FLTRES = 6, FPE_FLTINV = 7, FPE_FLTSUB = 8,
      SEGV_MAPERR = 1, SEGV_ACCERR = 2, BUS_ADRALN = 1, BUS_ADRERR = 2\<rparr>"

definition segv_info :: siginfo where
  "segv_info = \<lparr>si_signo = 11, si_code = 1, si_value = 255\<rparr>"

section \<open>Nobody listening\<close>

lemma w_log_gates_closed:
  assumes "\<not> level \<le> log_level st" and "\<not> w_should_log_to_clients e level"
  shows "w_log (Suc k) e self st level fmt args = Some (Returns st)"
  using assms by simp

text \<open>
  C2: a call whose severity is numerically greater than the configured level, while
  the client predicate says no, returns at once: the state that comes back is the
  state that went in, so no printf-family call was counted, the clock was not read,
  no thread name was assigned, and nothing reached standard error or the clients.
\<close>

theorem w_log_nobody_listening:
  assumes "log_level st < level" and "\<not> w_should_log_to_clients e level"
  shows "w_log (Suc k) e self st level fmt args = Some (Returns st)"
  using assms by (intro w_log_gates_closed) simp_all

theorem w_log_nobody_listening_witness:
  "log_level sample_state < 2 \<and> \<not> w_should_log_to_clients sample_env 2 \<and>
   w_log (Suc 0) sample_env 5 sample_state 2 ''debug %d'' [AInt 7] = Some (Returns sample_state)"
  using w_log_nobody_listening [of sample_state 2 sample_env 0 5 "''debug %d''" "[AInt 7]"]
  by (simp add: sample_env_def sample_state_def)

text \<open>
  C3: the same early return applies to the fatal severity.  When the fatal value
  itself is above the configured level and the client predicate rejects it, the call
  returns normally with the state untouched: \<open>backtrace\<close> is not called and the
  process is not aborted.
\<close>

theorem w_log_fatal_nobody_listening:
  assumes "log_level st < W_LOG_FATAL e" and "\<not> w_should_log_to_clients e (W_LOG_FATAL e)"
  shows "w_log (Suc k) e self st (W_LOG_FATAL e) fmt args = Some (Returns st)"
  using assms by (intro w_log_gates_closed) simp_all

theorem w_log_fatal_nobody_listening_witness:
  "log_level sample_state < W_LOG_FATAL sample_env \<and>
   \<not> w_should_log_to_clients sample_env (W_LOG_FATAL sample_env) \<and>
   w_log (Suc 1) sample_env 5 sample_state (W_LOG_FATAL sample_env) ''boom'' [] =
     Some (Returns sample_state)"
  using w_log_fatal_nobody_listening [of sample_state sample_env 1 5 "''boom''" "[]"]
  by (simp add: sample_env_def sample_state_def)

section \<open>Properties of the thread names\<close>

lemma vformat_u: "vformat ''%u'' [AUInt n] = Some (dec_nat n)"
  by (simp add: NUL_def)

lemma set_name_Some:
  assumes "vformat fmt args = Some s"
  shows "w_set_thread_name t st fmt args =
     (Some (next_addr st),
      st\<lparr>heap := (case tls st t of None \<Rightarrow> heap st | Some a \<Rightarrow> (heap st)(a := None))
                 (next_addr st \<mapsto> s),
         next_addr := next_addr st + 1,
         fmt_calls := fmt_calls st + 1,
         tls := (tls st)(t \<mapsto> next_addr st)\<rparr>)"
  using assms
  by (cases "tls st t") (simp_all add: w_set_thread_name_def c_free_def c_vasprintf_def)

lemma set_name_None:
  assumes "vformat fmt args = None"
  shows "w_set_thread_name t st fmt args =
     (None,
      st\<lparr>heap := (case tls st t of None \<Rightarrow> heap st | Some a \<Rightarrow> (heap st)(a := None)),
         fmt_calls := fmt_calls st + 1,
         tls := (tls st)(t := None)\<rparr>)"
  using assms
  by (cases "tls st t") (simp_all add: w_set_thread_name_def c_free_def c_vasprintf_def)

lemma get_name_unset:
  assumes "tls st t = None"
  shows "w_get_thread_name t st =
     (Some (next_addr st),
      st\<lparr>heap := (heap st)(next_addr st \<mapsto> dec_nat (unat (ucast t :: 32 word))),
         next_addr := next_addr st + 1,
         fmt_calls := fmt_calls st + 1,
         tls := (tls st)(t \<mapsto> next_addr st)\<rparr>)"
  using assms by (simp add: w_get_thread_name_def set_name_Some [OF vformat_u])

lemma get_name_set:
  assumes "tls st t = Some a"
  shows "w_get_thread_name t st = (Some a, st)"
  using assms by (simp add: w_get_thread_name_def)

lemma tls_valid_set:
  assumes "tls_valid st"
  shows "tls_valid (snd (w_set_thread_name t st fmt args))"
proof (cases "vformat fmt args")
  case None
  show ?thesis using assms unfolding set_name_None [OF None] tls_valid_def
    by (auto split: option.splits)
next
  case (Some s)
  show ?thesis using assms unfolding set_name_Some [OF Some] tls_valid_def
    by (auto split: option.splits if_splits) (metis less_SucI)+
qed

lemma tls_valid_get:
  assumes "tls_valid st"
  shows "tls_valid (snd (w_get_thread_name t st))"
proof (cases "tls st t")
  case None
  then have "w_get_thread_name t st =
      w_set_thread_name t st ''%u'' [AUInt (unat (ucast t :: 32 word))]"
    by (simp add: w_get_thread_name_def)
  then show ?thesis using tls_valid_set [OF assms] by simp
next
  case (Some a)
  then show ?thesis using assms by (simp add: get_name_set)
qed

lemma get_name_twice:
  "w_get_thread_name t (snd (w_get_thread_name t st)) = w_get_thread_name t st"
proof (cases "tls st t")
  case None
  show ?thesis unfolding get_name_unset [OF None] by (simp add: get_name_set)
next
  case (Some a)
  then show ?thesis by (simp add: get_name_set)
qed

lemma get_name_default:
  assumes "tls st t = None"
  shows "name_string (snd (w_get_thread_name t st)) (fst (w_get_thread_name t st)) =
           Some (dec_nat (unat (ucast t :: 32 word)))"
  unfolding get_name_unset [OF assms] by (simp add: name_string_def)

lemma get_name_allocated:
  assumes "tls_valid st"
  shows "\<exists>a nm. fst (w_get_thread_name t st) = Some a \<and>
           tls (snd (w_get_thread_name t st)) t = Some a \<and>
           heap (snd (w_get_thread_name t st)) a = Some nm"
proof (cases "tls st t")
  case None
  show ?thesis unfolding get_name_unset [OF None] by simp
next
  case (Some a)
  with assms obtain nm where "heap st a = Some nm"
    unfolding tls_valid_def by blast
  with Some show ?thesis by (simp add: get_name_set)
qed

lemma set_name_other_thread:
  assumes "tls_valid st" and "u \<noteq> t" and "tls st t = Some a"
  shows "tls (snd (w_set_thread_name u st fmt args)) t = Some a \<and>
         heap (snd (w_set_thread_name u st fmt args)) a = heap st a"
proof -
  have fresh: "a < next_addr st" and own: "tls st u \<noteq> Some a"
    using assms unfolding tls_valid_def by auto
  show ?thesis
  proof (cases "vformat fmt args")
    case None
    show ?thesis unfolding set_name_None [OF None] using assms(2,3) fresh own
      by (auto split: option.splits)
  next
    case (Some s)
    show ?thesis unfolding set_name_Some [OF Some] using assms(2,3) fresh own
      by (auto split: option.splits)
  qed
qed

text \<open>
  C9: a second \<open>w_get_thread_name\<close> on the same thread returns the pointer that the
  first one returned and changes nothing, and the string behind it is still the same
  after any \<open>w_set_thread_name\<close> of another thread.  A thread that never had a name
  gets the decimal rendering of its identifier, cut to 32 bits.  Two such threads
  get two allocations, each holding the rendering of its own identifier.
\<close>

theorem get_thread_name_stable:
  "let (p1, st1) = w_get_thread_name t st in
     w_get_thread_name t st1 = (p1, st1) \<and>
     (tls st t = None \<longrightarrow>
        name_string st1 p1 = Some (dec_nat (unat (ucast t :: 32 word)))) \<and>
     (tls_valid st \<longrightarrow> name_string st1 p1 \<noteq> None) \<and>
     (\<forall>u fmt args. tls_valid st \<and> u \<noteq> t \<longrightarrow>
        (let (q, st2) = w_set_thread_name u st1 fmt args in
           w_get_thread_name t st2 = (p1, st2) \<and>
           name_string st2 p1 = name_string st1 p1)) \<and>
     (\<forall>u. u \<noteq> t \<and> tls st t = None \<and> tls st u = None \<longrightarrow>
        (let (p2, st2) = w_get_thread_name u st1 in
           p2 \<noteq> p1 \<and>
           name_string st2 p1 = Some (dec_nat (unat (ucast t :: 32 word))) \<and>
           name_string st2 p2 = Some (dec_nat (unat (ucast u :: 32 word)))))"
proof -
  obtain p1 st1 where g: "w_get_thread_name t st = (p1, st1)"
    by (cases "w_get_thread_name t st")
  have twice: "w_get_thread_name t st1 = (p1, st1)"
    using get_name_twice [of t st] by (simp add: g)
  have dflt: "name_string st1 p1 = Some (dec_nat (unat (ucast t :: 32 word)))"
    if "tls st t = None"
    using get_name_default [OF that] by (simp add: g)
  have alloc: "name_string st1 p1 \<noteq> None" if "tls_valid st"
    using get_name_allocated [OF that, of t] by (auto simp: g name_string_def)
  have other: "w_get_thread_name t (snd (w_set_thread_name u st1 fmt args)) =
                 (p1, snd (w_set_thread_name u st1 fmt args)) \<and>
               name_string (snd (w_set_thread_name u st1 fmt args)) p1 = name_string st1 p1"
    if v: "tls_valid st" and ne: "u \<noteq> t" for u fmt args
  proof -
    have v1: "tls_valid st1" using tls_valid_get [OF v, of t] by (simp add: g)
    obtain a where a: "p1 = Some a" "tls st1 t = Some a"
      using get_name_allocated [OF v, of t] by (auto simp: g)
    from set_name_other_thread [OF v1 ne a(2)] show ?thesis
      by (simp add: a(1) get_name_set name_string_def)
  qed
  have both: "fst (w_get_thread_name u st1) \<noteq> p1 \<and>
              name_string (snd (w_get_thread_name u st1)) p1 =
                Some (dec_nat (unat (ucast t :: 32 word))) \<and>
              name_string (snd (w_get_thread_name u st1)) (fst (w_get_thread_name u st1)) =
                Some (dec_nat (unat (ucast u :: 32 word)))"
    if ne: "u \<noteq> t" and nt: "tls st t = None" and nu: "tls st u = None" for u
  proof -
    have st1: "p1 = Some (next_addr st)" "tls st1 u = None" "next_addr st1 = next_addr st + 1"
      "heap st1 (next_addr st) = Some (dec_nat (unat (ucast t :: 32 word)))"
      using g ne nu unfolding get_name_unset [OF nt] by auto
    show ?thesis unfolding get_name_unset [OF st1(2)]
      by (simp add: st1 name_string_def)
  qed
  show ?thesis
    unfolding g using twice dflt alloc other both
    by (simp add: case_prod_beta)
qed

theorem get_thread_name_stable_witness:
  "w_get_thread_name 5 (snd (w_get_thread_name 5 sample_state)) =
     w_get_thread_name 5 sample_state \<and>
   tls sample_state 5 = None \<and>
   name_string (snd (w_get_thread_name 5 sample_state)) (fst (w_get_thread_name 5 sample_state)) =
     Some ''5'' \<and>
   tls_valid sample_state \<and> (6 :: tid) \<noteq> 5 \<and> tls sample_state 6 = None \<and>
   fst (w_get_thread_name 6 (snd (w_get_thread_name 5 sample_state))) \<noteq>
     fst (w_get_thread_name 5 sample_state) \<and>
   name_string (snd (w_get_thread_name 6 (snd (w_get_thread_name 5 sample_state))))
     (fst (w_get_thread_name 6 (snd (w_get_thread_name 5 sample_state)))) = Some ''6''"
proof -
  have v: "tls_valid sample_state" by (simp add: tls_valid_def sample_state_def)
  have n: "tls sample_state 5 = None" "tls sample_state 6 = None"
    by (simp_all add: sample_state_def)
  have d: "dec_nat (unat (ucast (5 :: tid) :: 32 word)) = ''5''"
    "dec_nat (unat (ucast (6 :: tid) :: 32 word)) = ''6''"
    by (simp_all add: dec_nat.simps digit_def)
  note th = get_thread_name_stable [of 5 sample_state, unfolded d]
  have a: "w_get_thread_name 5 (snd (w_get_thread_name 5 sample_state)) =
             w_get_thread_name 5 sample_state"
    and b: "name_string (snd (w_get_thread_name 5 sample_state))
              (fst (w_get_thread_name 5 sample_state)) = Some ''5''"
    and c: "\<forall>u. u \<noteq> 5 \<and> tls sample_state 5 = None \<and> tls sample_state u = None \<longrightarrow>
              fst (w_get_thread_name u (snd (w_get_thread_name 5 sample_state))) \<noteq>
                fst (w_get_thread_name 5 sample_state) \<and>
              name_string (snd (w_get_thread_name u (snd (w_get_thread_name 5 sample_state))))
                (fst (w_get_thread_name u (snd (w_get_thread_name 5 sample_state)))) =
                Some (dec_nat (unat (ucast u :: 32 word)))"
    using th n(1) by (simp_all add: case_prod_beta)
  have "(6 :: tid) \<noteq> 5" by simp
  with c n have "fst (w_get_thread_name 6 (snd (w_get_thread_name 5 sample_state))) \<noteq>
                fst (w_get_thread_name 5 sample_state) \<and>
              name_string (snd (w_get_thread_name 6 (snd (w_get_thread_name 5 sample_state))))
                (fst (w_get_thread_name 6 (snd (w_get_thread_name 5 sample_state)))) =
                Some (dec_nat (unat (ucast (6 :: tid) :: 32 word)))"
    by blast
  with a b v n show ?thesis by (simp only: d) simp
qed

text \<open>
  C10: when the format renders, \<open>w_set_thread_name\<close> returns a pointer to a new
  allocation that holds the rendering, the thread's slot holds that pointer, and the
  next \<open>w_get_thread_name\<close> of the thread returns it without changing anything.
  In a state whose slots are valid, the allocation that held the prior name is no
  longer allocated afterwards, and the names of the other threads are as they were.
\<close>

theorem set_thread_name_installs:
  assumes "vformat fmt args = Some s"
  shows "let (p, st1) = w_set_thread_name t st fmt args in
           name_string st1 p = Some s \<and> tls st1 t = p \<and>
           w_get_thread_name t st1 = (p, st1) \<and>
           (tls_valid st \<longrightarrow>
              tls_valid st1 \<and>
              (\<forall>a. tls st t = Some a \<longrightarrow> heap st1 a = None) \<and>
              (\<forall>u. u \<noteq> t \<longrightarrow> tls st1 u = tls st u \<and>
                     name_string st1 (tls st1 u) = name_string st (tls st u)))"
proof -
  obtain p st1 where w: "w_set_thread_name t st fmt args = (p, st1)"
    by (cases "w_set_thread_name t st fmt args")
  have p: "p = Some (next_addr st)"
    and h: "heap st1 = (case tls st t of None \<Rightarrow> heap st | Some a \<Rightarrow> (heap st)(a := None))
                         (next_addr st \<mapsto> s)"
    and l: "tls st1 = (tls st)(t \<mapsto> next_addr st)"
    using w unfolding set_name_Some [OF assms] by auto
  have installed: "name_string st1 p = Some s" "tls st1 t = p"
    by (simp_all add: p h l name_string_def)
  have again: "w_get_thread_name t st1 = (p, st1)"
    using installed(2) by (simp add: p get_name_set)
  have valid: "tls_valid st1" if "tls_valid st"
    using tls_valid_set [OF that, of t fmt args] by (simp add: w)
  have released: "heap st1 a = None" if "tls_valid st" and "tls st t = Some a" for a
  proof -
    from that have "a < next_addr st" unfolding tls_valid_def by blast
    with that(2) show ?thesis by (simp add: h)
  qed
  have others: "tls st1 u = tls st u \<and> name_string st1 (tls st1 u) = name_string st (tls st u)"
    if v: "tls_valid st" and ne: "u \<noteq> t" for u
  proof (cases "tls st u")
    case None
    with ne show ?thesis by (simp add: l name_string_def)
  next
    case (Some b)
    from set_name_other_thread [OF v _ Some, of t fmt args] ne
    show ?thesis by (simp add: w Some name_string_def)
  qed
  show ?thesis
    unfolding w using installed again valid released others by (simp del: split_paired_All) metis
qed

theorem set_thread_name_installs_witness:
  "vformat ''worker-%d'' [AInt 7] = Some ''worker-7'' \<and>
   tls_valid named_state \<and> tls named_state 5 = Some 1 \<and>
   heap named_state 1 = Some ''listener'' \<and>
   name_string (snd (w_set_thread_name 5 named_state ''worker-%d'' [AInt 7]))
     (fst (w_set_thread_name 5 named_state ''worker-%d'' [AInt 7])) = Some ''worker-7'' \<and>
   w_get_thread_name 5 (snd (w_set_thread_name 5 named_state ''worker-%d'' [AInt 7])) =
     w_set_thread_name 5 named_state ''worker-%d'' [AInt 7] \<and>
   heap (snd (w_set_thread_name 5 named_state ''worker-%d'' [AInt 7])) 1 = None"
proof -
  have r: "vformat ''worker-%d'' [AInt 7] = Some ''worker-7''"
    by (simp add: NUL_def fmt_d_def dec_nat.simps digit_def)
  have l: "vformat ''listener'' [] = Some ''listener''"
    by (simp add: NUL_def)
  have s: "tls_valid sample_state" by (simp add: tls_valid_def sample_state_def)
  have v: "tls_valid named_state"
    unfolding named_state_def by (rule tls_valid_set [OF s])
  have n: "tls named_state 5 = Some 1" "heap named_state 1 = Some ''listener''"
    unfolding named_state_def set_name_Some [OF l] by (simp_all add: sample_state_def)
  from set_thread_name_installs [OF r, of 5 named_state] v n r
  show ?thesis by (simp add: case_prod_beta)
qed

section \<open>Properties of the C library model\<close>

lemma BUFSZ_gt: "1 < BUFSZ"
  by (simp add: BUFSZ_def)

lemma NL_not_NUL: "NL \<noteq> NUL"
  by (simp add: NL_def NUL_def)

lemma NUL_notin_cstr: "NUL \<notin> set (cstr bs)"
  unfolding cstr_def by (auto dest: set_takeWhileD)

lemma cstr_no_NUL: "NUL \<notin> set r \<Longrightarrow> cstr (r @ NUL # rest) = r"
  unfolding cstr_def by (induction r) auto

lemma cstr_id: "NUL \<notin> set r \<Longrightarrow> cstr r = r"
  unfolding cstr_def by (induction r) auto

lemma cstr_split:
  assumes "NUL \<in> set b"
  shows "\<exists>rest. b = cstr b @ NUL # rest"
proof -
  have "dropWhile (\<lambda>c. c \<noteq> NUL) b \<noteq> []"
    using assms by (simp add: dropWhile_eq_Nil_conv)
  moreover have "\<not> hd (dropWhile (\<lambda>c. c \<noteq> NUL) b) \<noteq> NUL"
    using calculation by (rule hd_dropWhile)
  ultimately obtain rest where "dropWhile (\<lambda>c. c \<noteq> NUL) b = NUL # rest"
    by (cases "dropWhile (\<lambda>c. c \<noteq> NUL) b") auto
  then show ?thesis
    unfolding cstr_def using takeWhile_dropWhile_id [of "\<lambda>c. c \<noteq> NUL" b] by metis
qed

lemma digit_not_NUL: "d < 16 \<Longrightarrow> NUL \<noteq> digit d"
proof -
  assume "d < 16"
  then have "digit d \<in> set ''0123456789abcdef''"
    unfolding digit_def by (intro nth_mem) simp
  then show ?thesis by (auto simp: NUL_def)
qed

lemma NUL_notin_dec_nat: "NUL \<notin> set (dec_nat n)"
proof (induction n rule: dec_nat.induct)
  case (1 n)
  show ?case
  proof (cases "n < 10")
    case True
    then show ?thesis by (subst dec_nat.simps) (simp add: digit_not_NUL)
  next
    case False
    with 1 show ?thesis by (subst dec_nat.simps) (simp add: digit_not_NUL)
  qed
qed

lemma NUL_notin_hex_nat: "NUL \<notin> set (hex_nat n)"
proof (induction n rule: hex_nat.induct)
  case (1 n)
  show ?case
  proof (cases "n < 16")
    case True
    then show ?thesis by (subst hex_nat.simps) (simp add: digit_not_NUL)
  next
    case False
    with 1 show ?thesis by (subst hex_nat.simps) (simp add: digit_not_NUL)
  qed
qed

lemma NUL_notin_fmt:
  "NUL \<notin> set (fmt_d i)" "NUL \<notin> set (fmt_03d i)" "NUL \<notin> set (fmt_p a)"
proof -
  have c: "NUL \<noteq> CHR ''-''" "NUL \<noteq> CHR ''0''" "NUL \<noteq> CHR ''x''" "NUL \<notin> set ''(nil)''"
    by (simp_all add: NUL_def)
  show "NUL \<notin> set (fmt_d i)"
    using c by (simp add: fmt_d_def NUL_notin_dec_nat)
  show "NUL \<notin> set (fmt_03d i)"
    using c by (simp add: fmt_03d_def zero_pad_def NUL_notin_dec_nat)
  show "NUL \<notin> set (fmt_p a)"
    using c by (simp add: fmt_p_def NUL_notin_hex_nat)
qed

lemma vformat_step:
  assumes "vformat (c # fs) args = Some m"
  shows "m = [] \<or>
         (\<exists>t fs' as r. m = t @ r \<and> NUL \<notin> set t \<and> length fs' \<le> length fs \<and>
            vformat fs' as = Some r)"
proof (cases "c = NUL")
  case True
  with assms show ?thesis by simp
next
  case nz: False
  have I: ?thesis
    if "m = t @ r" "NUL \<notin> set t" "length fs' \<le> length fs" "vformat fs' as = Some r"
    for t r fs' as
    using that by blast
  show ?thesis
  proof (cases "c = CHR ''%''")
    case False
    with assms nz obtain r where "vformat fs args = Some r" "m = [c] @ r"
      by auto
    with nz show ?thesis by (intro I [of "[c]" r fs args]) auto
  next
    case pc: True
    have lit: "NUL \<notin> set ''%''" by (simp add: NUL_def)
    from assms nz pc obtain d fs' where fs: "fs = d # fs'"
      by (cases fs) auto
    have eq: "vformat (CHR ''%'' # d # fs') args = Some m"
      using assms pc fs by simp
    have pn: "CHR ''%'' \<noteq> NUL" by (simp add: NUL_def)
    consider (pct) "d = CHR ''%''" | (s) "d = CHR ''s''" | (d) "d = CHR ''d''"
      | (u) "d = CHR ''u''" | (p) "d = CHR ''p''" | (z) "d = CHR ''0''"
      | (other) "d \<notin> {CHR ''%'', CHR ''s'', CHR ''d'', CHR ''u'', CHR ''p'', CHR ''0''}"
      by auto
    then show ?thesis
    proof cases
      case pct
      with eq pn obtain r where "vformat fs' args = Some r" "m = ''%'' @ r" by auto
      with lit fs show ?thesis
        by (intro I [of "''%''" r fs' args]) auto
    next
      case s
      with eq pn obtain x as r where "args = AStr x # as" "vformat fs' as = Some r" "m = cstr x @ r"
        by (auto split: list.splits arg.splits)
      with fs show ?thesis
        by (intro I [of "cstr x" r fs' as]) (auto simp: NUL_notin_cstr)
    next
      case d
      with eq pn obtain x as r where "args = AInt x # as" "vformat fs' as = Some r" "m = fmt_d x @ r"
        by (auto split: list.splits arg.splits)
      with fs show ?thesis
        by (intro I [of "fmt_d x" r fs' as]) (auto simp: NUL_notin_fmt)
    next
      case u
      with eq pn obtain x as r where "args = AUInt x # as" "vformat fs' as = Some r" "m = dec_nat x @ r"
        by (auto split: list.splits arg.splits)
      with fs show ?thesis
        by (intro I [of "dec_nat x" r fs' as]) (auto simp: NUL_notin_dec_nat)
    next
      case p
      with eq pn obtain x as r where "args = APtr x # as" "vformat fs' as = Some r" "m = fmt_p x @ r"
        by (auto split: list.splits arg.splits)
      with fs show ?thesis
        by (intro I [of "fmt_p x" r fs' as]) (auto simp: NUL_notin_fmt)
    next
      case z
      with eq pn obtain x as r fs'' where "fs' = CHR ''3'' # CHR ''d'' # fs''"
        "args = AInt x # as" "vformat fs'' as = Some r" "m = fmt_03d x @ r"
        by (auto split: list.splits arg.splits if_splits)
      with fs show ?thesis
        by (intro I [of "fmt_03d x" r fs'' as]) (auto simp: NUL_notin_fmt)
    next
      case other
      with eq pn show ?thesis by auto
    qed
  qed
qed

lemma vformat_no_NUL: "vformat fmt args = Some m \<Longrightarrow> NUL \<notin> set m"
proof (induction "length fmt" arbitrary: fmt args m rule: less_induct)
  case less
  show ?case
  proof (cases fmt)
    case Nil
    with less.prems show ?thesis by simp
  next
    case (Cons c fs)
    with less.prems have "vformat (c # fs) args = Some m" by simp
    from vformat_step [OF this] show ?thesis
    proof
      assume "m = []"
      then show ?thesis by simp
    next
      assume "\<exists>t fs' as r. m = t @ r \<and> NUL \<notin> set t \<and> length fs' \<le> length fs \<and>
                vformat fs' as = Some r"
      then obtain t fs' as r where m: "m = t @ r" "NUL \<notin> set t"
        and l: "length fs' \<le> length fs" and v: "vformat fs' as = Some r"
        by blast
      from l Cons have "length fs' < length fmt" by simp
      from less.hyps [OF this v] m show ?thesis by simp
    qed
  qed
qed

lemma vformat_prefix:
  "vformat ''%s,%03d: [%s] '' [AStr tb, AInt ms, AStr nm] = Some (line_prefix tb ms nm)"
  by (simp add: NUL_def line_prefix_def)

lemma line_prefix_no_NUL: "NUL \<notin> set (line_prefix tb ms nm)"
  using vformat_no_NUL [OF vformat_prefix] .

lemma line_prefix_nonempty: "line_prefix tb ms nm \<noteq> []"
  by (simp add: line_prefix_def)

lemma length_stack_array: "length (stack_array g) = BUFSZ"
  by (simp add: stack_array_def)

lemma length_store: "off + length bs \<le> length b \<Longrightarrow> length (store b off bs) = length b"
  by (simp add: store_def)

section \<open>Properties of the line formatter\<close>

lemma render_line_ok:
  assumes m: "vformat fmt args = Some m"
    and fits: "length (line_prefix tb ms nm) \<le> BUFSZ"
  shows "\<exists>rest. render_line g j tb ms nm fmt args =
            Some (take (BUFSZ - 1) (line_prefix tb ms nm @ m) @ NUL # rest) \<and>
          length (take (BUFSZ - 1) (line_prefix tb ms nm @ m) @ NUL # rest) = BUFSZ"
proof -
  define P where "P = line_prefix tb ms nm"
  define A where "A = stack_array g"
  have lA: "length A = BUFSZ" by (simp add: A_def length_stack_array)
  have lP: "length P \<le> BUFSZ" using fits by (simp add: P_def)
  define B1 where "B1 = store A 0 (take (BUFSZ - 1) P @ [NUL])"
  have first: "c_snprintf j A 0 BUFSZ ''%s,%03d: [%s] '' [AStr tb, AInt ms, AStr nm] =
                 (B1, int (length P))"
    using BUFSZ_gt by (simp add: c_snprintf_def vformat_prefix P_def B1_def del: vformat.simps)
  have lB1: "length B1 = BUFSZ"
    unfolding B1_def using lA BUFSZ_gt by (intro length_store [THEN trans]) auto
  show ?thesis
  proof (cases "length P = BUFSZ")
    case True
    have B1: "B1 = take (BUFSZ - 1) P @ [NUL]"
      using lA True BUFSZ_gt by (simp add: B1_def store_def)
    have "render_line g j tb ms nm fmt args = Some B1"
      using first True m
      by (simp add: render_line_def A_def [symmetric] c_snprintf_def)
    moreover have "take (BUFSZ - 1) (P @ m) = take (BUFSZ - 1) P"
      using True by simp
    ultimately show ?thesis
      using lB1 unfolding P_def [symmetric] by (intro exI [of _ "[]"]) (simp add: B1)
  next
    case False
    with lP have lt: "length P < BUFSZ" by simp
    then have B1: "B1 = P @ NUL # drop (length P + 1) A"
      by (simp add: B1_def store_def)
    define k where "k = BUFSZ - length P - 1"
    define B2 where "B2 = store B1 (length P) (take k m @ [NUL])"
    have second: "c_snprintf j B1 (length P) (BUFSZ - length P) fmt args = (B2, int (length m))"
      using lt m by (simp add: c_snprintf_def B2_def k_def)
    have r: "render_line g j tb ms nm fmt args = Some B2"
      using first second lt
      by (simp add: render_line_def A_def [symmetric])
    have tk: "take (BUFSZ - 1) (P @ m) = P @ take k m"
      using lt by (simp add: k_def)
    have B2: "B2 = P @ take k m @ NUL # drop (length P + length (take k m) + 1) B1"
      by (simp add: B2_def store_def B1)
    have lB2: "length B2 = BUFSZ"
      unfolding B2_def using lB1 lt
      by (intro length_store [THEN trans]) (auto simp: k_def)
    show ?thesis
      unfolding P_def [symmetric] r tk
      using lB2 B2
      by (intro exI [of _ "drop (length P + length (take k m) + 1) B1"]) simp
  qed
qed

lemma render_line_failed:
  assumes m: "vformat fmt args = None"
    and fits: "length (line_prefix tb ms nm) \<le> BUFSZ"
  shows "\<exists>b. render_line g j tb ms nm fmt args = Some b \<and> length b = BUFSZ \<and>
           NUL \<in> set b \<and> b ! 0 \<noteq> NUL"
proof -
  define P where "P = line_prefix tb ms nm"
  define A where "A = stack_array g"
  have lA: "length A = BUFSZ" by (simp add: A_def length_stack_array)
  have lP: "length P \<le> BUFSZ" using fits by (simp add: P_def)
  have P0: "P \<noteq> []" "P ! 0 \<noteq> NUL"
    using line_prefix_nonempty [of tb ms nm] line_prefix_no_NUL [of tb ms nm]
    unfolding P_def [symmetric] by (auto simp: in_set_conv_nth)
  define B1 where "B1 = store A 0 (take (BUFSZ - 1) P @ [NUL])"
  have first: "c_snprintf j A 0 BUFSZ ''%s,%03d: [%s] '' [AStr tb, AInt ms, AStr nm] =
                 (B1, int (length P))"
    using BUFSZ_gt by (simp add: c_snprintf_def vformat_prefix P_def B1_def del: vformat.simps)
  have lB1: "length B1 = BUFSZ"
    unfolding B1_def using lA BUFSZ_gt by (intro length_store [THEN trans]) auto
  have B10: "B1 ! 0 = P ! 0"
    using P0 BUFSZ_gt by (cases P) (simp_all add: B1_def store_def nth_append)
  define J where "J = take (BUFSZ - length P) j"
  define B2 where "B2 = store B1 (length P) J"
  have second: "c_snprintf j B1 (length P) (BUFSZ - length P) fmt args = (B2, - 1)"
    using m by (simp add: c_snprintf_def B2_def J_def)
  have r: "render_line g j tb ms nm fmt args = Some (B2[BUFSZ - 1 := NUL])"
    using first second lP
    by (simp add: render_line_def A_def [symmetric])
  have lB2: "length B2 = BUFSZ"
    unfolding B2_def using lB1 lP
    by (intro length_store [THEN trans]) (auto simp: J_def)
  have B20: "B2 ! 0 = P ! 0"
    using P0 lB1 lP B10 by (simp add: B2_def store_def nth_append)
  have "B2[BUFSZ - 1 := NUL] ! 0 = P ! 0"
    using B20 lB2 BUFSZ_gt by (simp add: nth_list_update)
  moreover have "NUL \<in> set (B2[BUFSZ - 1 := NUL])"
    using lB2 BUFSZ_gt by (intro set_update_memI) simp
  ultimately show ?thesis
    using r lB2 P0 by simp
qed

lemma ensure_newline_shape:
  assumes b: "b = r @ NUL # rest" and r: "r \<noteq> []" "NUL \<notin> set r"
    and l: "length b = BUFSZ"
  shows "\<exists>buf. ensure_newline b = Some (buf, length (with_newline r)) \<and>
           length buf = BUFSZ \<and>
           take (length (with_newline r)) buf = with_newline r \<and>
           buf ! length (with_newline r) = NUL"
proof -
  have sl: "strlen b = Some (length r)"
    using r(2) by (simp add: strlen_def b cstr_no_NUL)
  have pos: "length r \<noteq> 0" using r(1) by simp
  have lastr: "b ! (length r - 1) = last r"
    using r(1) by (simp add: b nth_append last_conv_nth)
  have le: "length r + 1 + length rest = BUFSZ" using l by (simp add: b)
  show ?thesis
  proof (cases "last r = NL")
    case True
    then have "ensure_newline b = Some (b, length r)"
      using sl pos lastr by (simp add: ensure_newline_def)
    moreover have "with_newline r = r" using True by (simp add: with_newline_def)
    ultimately show ?thesis using l by (simp add: b)
  next
    case nl: False
    show ?thesis
    proof (cases "length r < BUFSZ - 1")
      case True
      with le obtain x rest' where rest: "rest = x # rest'" by (cases rest) auto
      have e: "ensure_newline b = Some (b[length r := NL, length r + 1 := NUL], length r + 1)"
        using sl pos lastr nl True by (simp add: ensure_newline_def)
      have u: "b[length r := NL, length r + 1 := NUL] = (r @ [NL]) @ NUL # rest'"
        by (simp add: b rest list_update_append)
      have w: "with_newline r = r @ [NL]" using nl True by (simp add: with_newline_def)
      show ?thesis
        unfolding e w u using l
        by (simp add: b rest nth_append)
    next
      case False
      with le have full: "length r = BUFSZ - 1" by simp
      from r(1) obtain ys y where ys: "r = ys @ [y]" by (cases r rule: rev_cases) auto
      have e: "ensure_newline b = Some (b[length r - 1 := NL], length r)"
        using sl pos lastr nl False by (simp add: ensure_newline_def)
      have u: "b[length r - 1 := NL] = (ys @ [NL]) @ NUL # rest"
        by (simp add: b ys list_update_append)
      have w: "with_newline r = ys @ [NL]" using nl False by (simp add: with_newline_def ys)
      have lw: "length (ys @ [NL]) = length r" by (simp add: ys)
      have tk: "take (length r) ((ys @ [NL]) @ NUL # rest) = ys @ [NL]"
        unfolding lw [symmetric] by simp
      have z: "((ys @ [NL]) @ NUL # rest) ! length r = NUL"
        unfolding lw [symmetric] by (simp only: nth_append_length)
      show ?thesis
        unfolding e w u lw using l tk z
        by (simp add: b ys)
    qed
  qed
qed

lemma with_newline_props:
  assumes "r \<noteq> []" and "NUL \<notin> set r" and "length r \<le> BUFSZ - 1"
  shows "with_newline r \<noteq> []" and "last (with_newline r) = NL"
    and "NUL \<notin> set (with_newline r)" and "length (with_newline r) \<le> BUFSZ - 1"
    and "length r \<le> length (with_newline r)"
  using assms NL_not_NUL BUFSZ_gt
  by (auto simp: with_newline_def dest: in_set_butlastD)

lemma format_line_ok:
  assumes m: "vformat fmt args = Some m"
    and fits: "length (line_prefix tb ms nm) \<le> BUFSZ"
  shows "\<exists>buf. format_line g j tb ms nm fmt args = Some (buf, length (log_line tb ms nm m)) \<and>
           length buf = BUFSZ \<and>
           take (length (log_line tb ms nm m)) buf = log_line tb ms nm m \<and>
           buf ! length (log_line tb ms nm m) = NUL"
proof -
  define r where "r = take (BUFSZ - 1) (line_prefix tb ms nm @ m)"
  from render_line_ok [OF m fits, of g j] obtain rest where
    rl: "render_line g j tb ms nm fmt args = Some (r @ NUL # rest)"
    and len: "length (r @ NUL # rest) = BUFSZ"
    unfolding r_def by blast
  have ne: "r \<noteq> []"
    using line_prefix_nonempty [of tb ms nm] BUFSZ_gt by (simp add: r_def)
  have nn: "NUL \<notin> set r"
    using line_prefix_no_NUL [of tb ms nm] vformat_no_NUL [OF m]
    by (auto simp: r_def dest: in_set_takeD)
  from ensure_newline_shape [OF refl ne nn len]
  show ?thesis
    by (simp add: format_line_def rl log_line_def r_def)
qed

lemma format_line_total:
  assumes fits: "length (line_prefix tb ms nm) \<le> BUFSZ"
  shows "\<exists>buf len. format_line g j tb ms nm fmt args = Some (buf, len) \<and>
           length buf = BUFSZ \<and> 0 < len \<and> len < BUFSZ \<and> buf ! len = NUL \<and>
           NUL \<notin> set (take len buf) \<and> last (take len buf) = NL"
proof -
  have "\<exists>r rest. render_line g j tb ms nm fmt args = Some (r @ NUL # rest) \<and>
          r \<noteq> [] \<and> NUL \<notin> set r \<and> length (r @ NUL # rest) = BUFSZ"
  proof (cases "vformat fmt args")
    case None
    from render_line_failed [OF None fits, of g j] obtain b where
      b: "render_line g j tb ms nm fmt args = Some b" "length b = BUFSZ"
        "NUL \<in> set b" "b ! 0 \<noteq> NUL"
      by blast
    from cstr_split [OF b(3)] obtain rest where s: "b = cstr b @ NUL # rest" by blast
    have "cstr b \<noteq> []"
    proof
      assume "cstr b = []"
      with s have "b ! 0 = NUL" by (metis append_Nil nth_Cons_0)
      with b(4) show False by simp
    qed
    with b s NUL_notin_cstr [of b] show ?thesis by metis
  next
    case (Some m)
    define r where "r = take (BUFSZ - 1) (line_prefix tb ms nm @ m)"
    have "r \<noteq> []"
      using line_prefix_nonempty [of tb ms nm] BUFSZ_gt by (simp add: r_def)
    moreover have "NUL \<notin> set r"
      using line_prefix_no_NUL [of tb ms nm] vformat_no_NUL [OF Some]
      by (auto simp: r_def dest: in_set_takeD)
    ultimately show ?thesis
      using render_line_ok [OF Some fits, of g j] unfolding r_def by blast
  qed
  then obtain r rest where rl: "render_line g j tb ms nm fmt args = Some (r @ NUL # rest)"
    and ne: "r \<noteq> []" and nn: "NUL \<notin> set r" and len: "length (r @ NUL # rest) = BUFSZ"
    by blast
  from len have lr: "length r \<le> BUFSZ - 1" by simp
  from ensure_newline_shape [OF refl ne nn len] obtain buf where
    e: "ensure_newline (r @ NUL # rest) = Some (buf, length (with_newline r))"
    and lb: "length buf = BUFSZ"
    and tk: "take (length (with_newline r)) buf = with_newline r"
    and z: "buf ! length (with_newline r) = NUL"
    by blast
  note w = with_newline_props [OF ne nn lr]
  show ?thesis
    using e lb tk z w BUFSZ_gt
    by (intro exI [of _ buf] exI [of _ "length (with_newline r)"])
       (simp add: format_line_def rl)
qed

lemma format_line_undefined:
  assumes "BUFSZ < length (line_prefix tb ms nm)"
  shows "format_line g j tb ms nm fmt args = None"
  using assms
  by (simp add: format_line_def render_line_def c_snprintf_def vformat_prefix
      del: vformat.simps)

section \<open>Properties of one call\<close>

lemma tls_valid_upd [simp]:
  "tls_valid (st\<lparr>ticks := k\<rparr>) = tls_valid st"
  "tls_valid (st\<lparr>out := os\<rparr>) = tls_valid st"
  "tls_valid (st\<lparr>fmt_calls := n\<rparr>) = tls_valid st"
  "tls_valid (st\<lparr>bt_calls := n\<rparr>) = tls_valid st"
  by (simp_all add: tls_valid_def)

lemma thread_name_upd [simp]:
  "thread_name t (st\<lparr>ticks := k\<rparr>) = thread_name t st"
  "thread_name t (st\<lparr>out := os\<rparr>) = thread_name t st"
  "thread_name t (st\<lparr>fmt_calls := n\<rparr>) = thread_name t st"
  "thread_name t (st\<lparr>bt_calls := n\<rparr>) = thread_name t st"
  by (simp_all add: thread_name_def split: option.splits)

lemma name_string_get:
  assumes "tls_valid st"
  shows "name_string (snd (w_get_thread_name t st)) (fst (w_get_thread_name t st)) =
           Some (thread_name t st)"
proof (cases "tls st t")
  case None
  then show ?thesis
    using get_name_default [OF None] by (simp add: thread_name_def)
next
  case (Some a)
  with assms obtain s where "heap st a = Some s" unfolding tls_valid_def by blast
  with Some show ?thesis by (simp add: get_name_set name_string_def thread_name_def)
qed

lemma thread_name_get:
  assumes "tls_valid st"
  shows "thread_name t (snd (w_get_thread_name t st)) = thread_name t st"
proof (cases "tls st t")
  case None
  show ?thesis unfolding get_name_unset [OF None] using None by (simp add: thread_name_def)
next
  case (Some a)
  then show ?thesis by (simp add: get_name_set)
qed

lemma get_name_frame:
  "log_level (snd (w_get_thread_name t st)) = log_level st"
  "ticks (snd (w_get_thread_name t st)) = ticks st"
  "out (snd (w_get_thread_name t st)) = out st"
  "bt_calls (snd (w_get_thread_name t st)) = bt_calls st"
  by (cases "tls st t"; simp add: get_name_unset get_name_set)+

lemma logged_props:
  "log_level (logged t st evs) = log_level st"
  "ticks (logged t st evs) = ticks st + 1"
  "out (logged t st evs) = out st @ evs"
  "bt_calls (logged t st evs) = bt_calls st"
  by (simp_all add: logged_def Let_def get_name_frame)

lemma logged_valid:
  assumes "tls_valid st"
  shows "tls_valid (logged t st evs)" and "thread_name t (logged t st evs) = thread_name t st"
proof -
  have v: "tls_valid (st\<lparr>ticks := ticks st + 1\<rparr>)" using assms by simp
  show "tls_valid (logged t st evs)"
    using tls_valid_get [OF v, of t] by (simp add: logged_def Let_def)
  show "thread_name t (logged t st evs) = thread_name t st"
    using thread_name_get [OF v, of t] by (simp add: logged_def Let_def)
qed

lemma w_log_emits:
  assumes gate: "level \<le> log_level st \<or> w_should_log_to_clients e level"
    and valid: "tls_valid st"
    and fits: "length (line_prefix (clock_text e (ticks st)) (clock_ms e (ticks st))
                 (thread_name self st)) \<le> BUFSZ"
  shows "\<exists>line. line \<noteq> [] \<and> last line = NL \<and> NUL \<notin> set line \<and> length line < BUFSZ \<and>
           (\<forall>m. vformat fmt args = Some m \<longrightarrow>
              line = log_line (clock_text e (ticks st)) (clock_ms e (ticks st))
                       (thread_name self st) m) \<and>
           w_log (Suc k) e self st level fmt args =
             (let st5 = logged self st
                          (sink_events e st level
                             (if level = W_LOG_FATAL e then W_LOG_ERR e else level) line)
              in if level = W_LOG_FATAL e then
                   (case log_stack_trace (w_log k e self) e st5 of
                      Some (Returns st6) \<Rightarrow> Some (Aborts st6)
                    | r \<Rightarrow> r)
                 else Some (Returns st5))"
proof -
  define tb where "tb = clock_text e (ticks st)"
  define ms where "ms = clock_ms e (ticks st)"
  define nm where "nm = thread_name self st"
  define st1 where "st1 = st\<lparr>ticks := ticks st + 1\<rparr>"
  obtain name st2 where g: "w_get_thread_name self st1 = (name, st2)"
    by (cases "w_get_thread_name self st1")
  have v1: "tls_valid st1" using valid by (simp add: st1_def)
  have ns: "name_string st2 name = Some nm"
    using name_string_get [OF v1, of self] unfolding g by (simp add: nm_def st1_def)
  from format_line_total [OF fits [folded tb_def ms_def nm_def],
      of "stack_garbage e" "vsn_junk e" fmt args]
  obtain buf len where fl: "format_line (stack_garbage e) (vsn_junk e) tb ms nm fmt args =
        Some (buf, len)"
    and p: "length buf = BUFSZ" "0 < len" "len < BUFSZ" "buf ! len = NUL"
      "NUL \<notin> set (take len buf)" "last (take len buf) = NL"
    by blast
  have split: "buf = take len buf @ NUL # drop (Suc len) buf"
    using p(1,3,4) by (metis id_take_nth_drop)
  have cs: "cstr buf = take len buf"
    using cstr_no_NUL [OF p(5), of "drop (Suc len) buf"] split by simp
  have same: "take len buf = log_line tb ms nm m" if m: "vformat fmt args = Some m" for m
  proof -
    from format_line_ok [OF m fits [folded tb_def ms_def nm_def],
        of "stack_garbage e" "vsn_junk e"]
    show ?thesis using fl by auto
  qed
  have ne: "take len buf \<noteq> []" using p(1,2,3) by auto
  have ll: "length (take len buf) < BUFSZ" using p(1,3) by simp
  have run: "w_log (Suc k) e self st level fmt args =
      (let st5 = logged self st
                   (sink_events e st level
                      (if level = W_LOG_FATAL e then W_LOG_ERR e else level) (take len buf))
       in if level = W_LOG_FATAL e then
            (case log_stack_trace (w_log k e self) e st5 of
               Some (Returns st6) \<Rightarrow> Some (Aborts st6)
             | r \<Rightarrow> r)
          else Some (Returns st5))"
    using gate g ns fl cs
    unfolding st1_def tb_def ms_def clock_text_def clock_ms_def
    by (auto simp: Let_def logged_def sink_events_def)
  show ?thesis
    using ne p(5,6) ll same run
    by (intro exI [of _ "take len buf"]) (simp add: tb_def ms_def nm_def)
qed

section \<open>The trailing newline and truncation\<close>

lemma vformat_plain:
  assumes "NUL \<notin> set s" and "CHR ''%'' \<notin> set s"
  shows "vformat s args = Some s"
  using assms by (induction s) auto

lemma written_format_line:
  assumes "vformat fmt args = Some m" and "length (line_prefix tb ms nm) \<le> BUFSZ"
  shows "written (format_line g j tb ms nm fmt args) = Some (log_line tb ms nm m)"
  using format_line_ok [OF assms, of g j] by (auto simp: written_def)

lemma sample_prefix:
  "line_prefix ''2012-05-01T12:00:00'' 42 ''5'' = ''2012-05-01T12:00:00,042: [5] ''"
  by (simp add: line_prefix_def cstr_def NUL_def fmt_03d_def zero_pad_def dec_nat.simps digit_def)

text \<open>
  C5, as amended: whenever the prefix fits the array, a line is produced; it is
  between 1 and 4095 bytes long, has no NUL inside and a NUL right after it, and its
  last byte is a newline.  When the message renders, the line is the rendered text
  \<open>r\<close> (prefix and message, cut to 4095 bytes) itself if \<open>r\<close> ends in a newline,
  \<open>r\<close> and a newline if \<open>r\<close> is shorter than 4095 bytes, and otherwise \<open>r\<close> with
  its last byte replaced by a newline.  So the formatter adds at most one newline;
  it does not reduce several trailing newlines of the message to one.
\<close>

theorem format_line_ends_in_newline:
  assumes "length (line_prefix tb ms nm) \<le> BUFSZ"
  shows "\<exists>buf len. format_line g j tb ms nm fmt args = Some (buf, len) \<and>
           length buf = BUFSZ \<and> 0 < len \<and> len < BUFSZ \<and> buf ! len = NUL \<and>
           NUL \<notin> set (take len buf) \<and> last (take len buf) = NL \<and>
           (\<forall>m. vformat fmt args = Some m \<longrightarrow>
              (let r = take (BUFSZ - 1) (line_prefix tb ms nm @ m)
               in take len buf =
                    (if last r = NL then r
                     else if length r < BUFSZ - 1 then r @ [NL]
                     else butlast r @ [NL])))"
proof -
  from format_line_total [OF assms, of g j fmt args] obtain buf len where
    fl: "format_line g j tb ms nm fmt args = Some (buf, len)"
    and p: "length buf = BUFSZ" "0 < len" "len < BUFSZ" "buf ! len = NUL"
      "NUL \<notin> set (take len buf)" "last (take len buf) = NL"
    by blast
  have "take len buf = log_line tb ms nm m" if "vformat fmt args = Some m" for m
    using format_line_ok [OF that assms, of g j] fl by auto
  then show ?thesis
    using fl p by (simp add: log_line_def with_newline_def Let_def)
qed

theorem format_line_ends_in_newline_witness:
  "length (line_prefix ''2012-05-01T12:00:00'' 42 ''5'') \<le> BUFSZ \<and>
   (\<exists>buf len. format_line ''xyz'' ''junk'' ''2012-05-01T12:00:00'' 42 ''5'' ''started'' [] =
        Some (buf, len) \<and>
      buf ! len = NUL \<and> last (take len buf) = NL \<and>
      take len buf = ''2012-05-01T12:00:00,042: [5] started\<newline>'')"
proof -
  have f: "length (line_prefix ''2012-05-01T12:00:00'' 42 ''5'') \<le> BUFSZ"
    by (simp add: sample_prefix BUFSZ_def)
  have v: "vformat ''started'' [] = Some ''started''"
    by (simp add: NUL_def)
  from format_line_ends_in_newline [OF f, of "''xyz''" "''junk''" "''started''" "[]"]
  obtain buf len where
    fl: "format_line ''xyz'' ''junk'' ''2012-05-01T12:00:00'' 42 ''5'' ''started'' [] =
           Some (buf, len)"
    and z: "buf ! len = NUL" and n: "last (take len buf) = NL"
    and t: "\<forall>m. vformat ''started'' [] = Some m \<longrightarrow>
              (let r = take (BUFSZ - 1) (line_prefix ''2012-05-01T12:00:00'' 42 ''5'' @ m)
               in take len buf =
                    (if last r = NL then r
                     else if length r < BUFSZ - 1 then r @ [NL]
                     else butlast r @ [NL]))"
    by blast
  from t v have "take len buf = ''2012-05-01T12:00:00,042: [5] started\<newline>''"
    by (simp add: sample_prefix BUFSZ_def NL_def)
  with f fl z n show ?thesis by blast
qed

text \<open>
  C5 as written fails: a message that ends in two newlines is emitted with both.
\<close>

theorem two_trailing_newlines:
  "written (format_line ''xyz'' ''junk'' ''2012-05-01T12:00:00'' 42 ''5''
              ''a\<newline>\<newline>'' []) =
     Some ''2012-05-01T12:00:00,042: [5] a\<newline>\<newline>''"
proof -
  have f: "length (line_prefix ''2012-05-01T12:00:00'' 42 ''5'') \<le> BUFSZ"
    by (simp add: sample_prefix BUFSZ_def)
  have v: "vformat ''a\<newline>\<newline>'' [] = Some ''a\<newline>\<newline>''"
    by (simp add: NUL_def)
  show ?thesis
    unfolding written_format_line [OF v f]
    by (simp add: log_line_def with_newline_def sample_prefix BUFSZ_def NL_def)
qed

text \<open>
  C6, as amended: when the prefix is at most 4094 bytes long and prefix and rendered
  message together are 4095 bytes or more, the final length is 4095, the buffer has
  its NUL at index 4095, and the emitted bytes are the whole prefix, then as much of
  the message as brings the length to 4094, then a newline.
\<close>

theorem format_line_truncates_message:
  assumes "vformat fmt args = Some m"
    and "length (line_prefix tb ms nm) < BUFSZ - 1"
    and "BUFSZ - 1 \<le> length (line_prefix tb ms nm) + length m"
  shows "\<exists>buf. format_line g j tb ms nm fmt args = Some (buf, BUFSZ - 1) \<and>
           length buf = BUFSZ \<and> buf ! (BUFSZ - 1) = NUL \<and>
           take (BUFSZ - 1) buf =
             line_prefix tb ms nm @
             take (BUFSZ - 2 - length (line_prefix tb ms nm)) m @ [NL]"
proof -
  define P where "P = line_prefix tb ms nm"
  define r where "r = take (BUFSZ - 1) (P @ m)"
  have lr: "length r = BUFSZ - 1" using assms(3) by (simp add: r_def P_def)
  then have ne: "r \<noteq> []" using BUFSZ_gt by auto
  have bl: "butlast r = P @ take (BUFSZ - 2 - length P) m"
  proof -
    have "BUFSZ - 1 \<le> length (P @ m)" using assms(3) by (simp add: P_def)
    then have "butlast r = take (BUFSZ - 1 - 1) (P @ m)"
      unfolding r_def by (rule butlast_take)
    then have "butlast r = take (BUFSZ - 2) (P @ m)"
      by (simp only: diff_diff_left one_add_one)
    also have "\<dots> = P @ take (BUFSZ - 2 - length P) m"
      using assms(2) by (simp add: P_def)
    finally show ?thesis .
  qed
  have w: "with_newline r = butlast r @ [NL]"
  proof (cases "last r = NL")
    case True
    with ne show ?thesis by (simp add: with_newline_def) (metis append_butlast_last_id)
  next
    case False
    with lr show ?thesis by (simp add: with_newline_def)
  qed
  have ll: "log_line tb ms nm m = with_newline r"
    by (simp only: log_line_def P_def r_def)
  have lw: "length (log_line tb ms nm m) = BUFSZ - 1"
    using lr ne BUFSZ_gt by (simp add: ll w)
  have fits: "length (line_prefix tb ms nm) \<le> BUFSZ" using assms(2) by simp
  from format_line_ok [OF assms(1) fits, of g j] obtain buf where
    b: "format_line g j tb ms nm fmt args = Some (buf, length (log_line tb ms nm m))"
      "length buf = BUFSZ"
      "take (length (log_line tb ms nm m)) buf = log_line tb ms nm m"
      "buf ! length (log_line tb ms nm m) = NUL"
    by blast
  have "log_line tb ms nm m =
          line_prefix tb ms nm @ take (BUFSZ - 2 - length (line_prefix tb ms nm)) m @ [NL]"
    by (simp only: ll w bl P_def append_assoc)
  with b [unfolded lw] show ?thesis
    by (intro exI [of _ buf]) simp
qed

theorem format_line_truncates_message_witness:
  "vformat (replicate 5000 (CHR ''a'')) [] = Some (replicate 5000 (CHR ''a'')) \<and>
   length (line_prefix ''2012-05-01T12:00:00'' 42 ''5'') < BUFSZ - 1 \<and>
   BUFSZ - 1 \<le> length (line_prefix ''2012-05-01T12:00:00'' 42 ''5'') +
                  length (replicate 5000 (CHR ''a'')) \<and>
   (\<exists>buf. format_line ''xyz'' ''junk'' ''2012-05-01T12:00:00'' 42 ''5''
             (replicate 5000 (CHR ''a'')) [] = Some (buf, 4095) \<and>
      buf ! 4095 = NUL \<and>
      take 4095 buf =
        ''2012-05-01T12:00:00,042: [5] '' @ replicate 4065 (CHR ''a'') @ [NL])"
proof -
  have v: "vformat (replicate 5000 (CHR ''a'')) [] = Some (replicate 5000 (CHR ''a''))"
    by (rule vformat_plain) (simp_all add: NUL_def)
  have f: "length (line_prefix ''2012-05-01T12:00:00'' 42 ''5'') < BUFSZ - 1"
    by (simp add: sample_prefix BUFSZ_def)
  have x: "BUFSZ - 1 \<le> length (line_prefix ''2012-05-01T12:00:00'' 42 ''5'') +
                         length (replicate 5000 (CHR ''a''))"
    by (simp add: sample_prefix BUFSZ_def)
  from format_line_truncates_message [OF v f x, of "''xyz''" "''junk''"] v f x
  show ?thesis
    by (simp add: sample_prefix BUFSZ_def) blast
qed

text \<open>
  C6 as written fails in two ways.  A message cut right after two newlines is
  emitted ending in both.  And with a thread name of 4067 bytes the prefix alone
  fills the buffer: the message is dropped and the prefix loses its final space to
  the newline.
\<close>

theorem truncation_counterexamples:
  "written (format_line ''xyz'' ''junk'' ''2012-05-01T12:00:00'' 42 ''5''
              (replicate 4064 (CHR ''a'') @ ''\<newline>\<newline>tail'') []) =
     Some (''2012-05-01T12:00:00,042: [5] '' @ replicate 4064 (CHR ''a'') @
             ''\<newline>\<newline>'') \<and>
   written (format_line ''xyz'' ''junk'' ''2012-05-01T12:00:00'' 42
              (replicate 4067 (CHR ''n'')) ''hello'' []) =
     Some (''2012-05-01T12:00:00,042: ['' @ replicate 4067 (CHR ''n'') @ '']\<newline>'')"
proof -
  have v1: "vformat (replicate 4064 (CHR ''a'') @ ''\<newline>\<newline>tail'') [] =
              Some (replicate 4064 (CHR ''a'') @ ''\<newline>\<newline>tail'')"
    by (rule vformat_plain) (simp_all add: NUL_def)
  have f1: "length (line_prefix ''2012-05-01T12:00:00'' 42 ''5'') \<le> BUFSZ"
    by (simp add: sample_prefix BUFSZ_def)
  have a: "written (format_line ''xyz'' ''junk'' ''2012-05-01T12:00:00'' 42 ''5''
              (replicate 4064 (CHR ''a'') @ ''\<newline>\<newline>tail'') []) =
     Some (''2012-05-01T12:00:00,042: [5] '' @ replicate 4064 (CHR ''a'') @
             ''\<newline>\<newline>'')"
    unfolding written_format_line [OF v1 f1]
    by (simp add: log_line_def with_newline_def sample_prefix BUFSZ_def NL_def)
  have p2: "line_prefix ''2012-05-01T12:00:00'' 42 (replicate 4067 (CHR ''n'')) =
              ''2012-05-01T12:00:00,042: ['' @ replicate 4067 (CHR ''n'') @ ''] ''"
    by (simp add: line_prefix_def cstr_def NUL_def fmt_03d_def zero_pad_def dec_nat.simps
        digit_def)
  have v2: "vformat ''hello'' [] = Some ''hello''"
    by (simp add: NUL_def)
  have f2: "length (line_prefix ''2012-05-01T12:00:00'' 42 (replicate 4067 (CHR ''n''))) \<le> BUFSZ"
    by (simp add: p2 BUFSZ_def)
  have b: "written (format_line ''xyz'' ''junk'' ''2012-05-01T12:00:00'' 42
              (replicate 4067 (CHR ''n'')) ''hello'' []) =
     Some (''2012-05-01T12:00:00,042: ['' @ replicate 4067 (CHR ''n'') @ '']\<newline>'')"
    unfolding written_format_line [OF v2 f2]
    by (simp add: log_line_def with_newline_def p2 BUFSZ_def NL_def butlast_append)
  from a b show ?thesis by (rule conjI)
qed

section \<open>The emitted line and the fatal severity\<close>



lemma cstr_clock_text: "cstr (clock_text e k) = clock_text e k"
  by (rule cstr_id) (auto simp: clock_text_def dest: in_set_takeD simp: NUL_notin_cstr)


lemma sample_clock:
  "clock_text sample_env 0 = ''2012-05-01T12:00:00''"
  "clock_ms sample_env 0 = 42"
  "thread_name 5 sample_state = ''5''"
  "ticks sample_state = 0"
  by (simp_all add: clock_text_def clock_ms_def thread_name_def sample_env_def sample_state_def
      cstr_def NUL_def dec_nat.simps digit_def c_int_def c_div_def)

lemma sample_valid: "tls_valid sample_state"
  by (simp add: tls_valid_def sample_state_def)




text \<open>
  What the code does with the fatal value once a gate has let it through: the
  clients are handed the line with \<open>W_LOG_ERR\<close>, and the call goes on into
  \<open>log_stack_trace\<close> and \<open>abort\<close> and never returns.  The gates themselves
  have been asked about the value as it was passed.
\<close>

lemma w_log_fatal_dispatch:
  assumes "W_LOG_FATAL e \<le> log_level st \<or> w_should_log_to_clients e (W_LOG_FATAL e)"
    and "tls_valid st"
    and "length (line_prefix (clock_text e (ticks st)) (clock_ms e (ticks st))
           (thread_name self st)) \<le> BUFSZ"
  shows "\<exists>line. line \<noteq> [] \<and> last line = NL \<and>
           (\<forall>m. vformat fmt args = Some m \<longrightarrow>
              line = log_line (clock_text e (ticks st)) (clock_ms e (ticks st))
                       (thread_name self st) m) \<and>
           w_log (Suc k) e self st (W_LOG_FATAL e) fmt args =
             (case log_stack_trace (w_log k e self) e
                     (logged self st
                        ((if W_LOG_FATAL e \<le> log_level st then [Stderr line] else []) @
                         (if w_should_log_to_clients e (W_LOG_FATAL e)
                          then [ToClients (W_LOG_ERR e) line] else []))) of
                Some (Returns st6) \<Rightarrow> Some (Aborts st6)
              | r \<Rightarrow> r) \<and>
           (\<forall>s. w_log (Suc k) e self st (W_LOG_FATAL e) fmt args \<noteq> Some (Returns s))"
proof -
  from w_log_emits [OF assms, of fmt args k] obtain line where
    l: "line \<noteq> []" "last line = NL"
      "\<forall>m. vformat fmt args = Some m \<longrightarrow>
         line = log_line (clock_text e (ticks st)) (clock_ms e (ticks st))
                  (thread_name self st) m"
    and w: "w_log (Suc k) e self st (W_LOG_FATAL e) fmt args =
             (case log_stack_trace (w_log k e self) e
                     (logged self st (sink_events e st (W_LOG_FATAL e) (W_LOG_ERR e) line)) of
                Some (Returns st6) \<Rightarrow> Some (Aborts st6)
              | r \<Rightarrow> r)"
    by (auto simp: Let_def simp del: w_log.simps)
  have "w_log (Suc k) e self st (W_LOG_FATAL e) fmt args \<noteq> Some (Returns s)" for s
    unfolding w by (simp split: option.splits result.splits)
  with l w show ?thesis
    unfolding sink_events_def by (intro exI [of _ line]) (simp del: w_log.simps)
qed

lemma w_log_fatal_dispatch_example:
  "(W_LOG_FATAL low_fatal_env \<le> log_level sample_state \<or>
      w_should_log_to_clients low_fatal_env (W_LOG_FATAL low_fatal_env)) \<and>
   tls_valid sample_state \<and>
   length (line_prefix (clock_text low_fatal_env (ticks sample_state))
      (clock_ms low_fatal_env (ticks sample_state)) (thread_name 5 sample_state)) \<le> BUFSZ \<and>
   vformat ''boom'' [] = Some ''boom'' \<and>
   w_log (Suc 1) low_fatal_env 5 sample_state (W_LOG_FATAL low_fatal_env) ''boom'' [] =
     (case log_stack_trace (w_log 1 low_fatal_env 5) low_fatal_env
             (logged 5 sample_state [Stderr ''2012-05-01T12:00:00,042: [5] boom\<newline>'']) of
        Some (Returns st6) \<Rightarrow> Some (Aborts st6)
      | r \<Rightarrow> r)"
proof -
  have c: "W_LOG_FATAL low_fatal_env = 0" "log_level sample_state = 1"
    "\<not> w_should_log_to_clients low_fatal_env 0" "ticks sample_state = 0"
    "clock_text low_fatal_env 0 = ''2012-05-01T12:00:00''" "clock_ms low_fatal_env 0 = 42"
    by (simp_all add: low_fatal_env_def sample_env_def sample_state_def clock_text_def
        clock_ms_def cstr_def NUL_def dec_nat.simps digit_def c_int_def c_div_def)
  have g: "W_LOG_FATAL low_fatal_env \<le> log_level sample_state \<or>
      w_should_log_to_clients low_fatal_env (W_LOG_FATAL low_fatal_env)"
    by (simp add: c)
  have f: "length (line_prefix (clock_text low_fatal_env (ticks sample_state))
      (clock_ms low_fatal_env (ticks sample_state)) (thread_name 5 sample_state)) \<le> BUFSZ"
    by (simp add: c sample_clock sample_prefix BUFSZ_def)
  have v: "vformat ''boom'' [] = Some ''boom''" by (simp add: NUL_def)
  have l: "log_line ''2012-05-01T12:00:00'' 42 ''5'' ''boom'' =
             ''2012-05-01T12:00:00,042: [5] boom\<newline>''"
    by (simp add: log_line_def with_newline_def sample_prefix BUFSZ_def NL_def)
  from w_log_fatal_dispatch [OF g sample_valid f, of "''boom''" "[]" 1] v
  have "w_log (Suc 1) low_fatal_env 5 sample_state (W_LOG_FATAL low_fatal_env) ''boom'' [] =
     (case log_stack_trace (w_log 1 low_fatal_env 5) low_fatal_env
             (logged 5 sample_state [Stderr ''2012-05-01T12:00:00,042: [5] boom\<newline>'']) of
        Some (Returns st6) \<Rightarrow> Some (Aborts st6)
      | r \<Rightarrow> r)"
    by (auto simp: c sample_clock l simp del: w_log.simps One_nat_def)
  with g sample_valid f v show ?thesis by blast
qed

text \<open>
  C4 does not hold of the code: the gates of lines 132 and 133 are computed before
  lines 140 to 143 replace the fatal value by the error severity, so eligibility is
  decided on the fatal value.  In the default process (\<open>log_level = W_LOG_ERR\<close>),
  with the fatal severity numbered above the error severity, both gates are open for
  the error severity, and still the call with the fatal severity finds them closed
  and returns: no line, no stack trace, no \<open>abort\<close>.  With the fatal severity
  numbered below the error severity the same happens for clients that accept the
  error severity, once the level is below the fatal value.
\<close>

theorem fatal_gates_not_normalized:
  "W_LOG_ERR sample_env \<le> log_level sample_state \<and>
   w_should_log_to_clients sample_env (W_LOG_ERR sample_env) \<and>
   w_log (Suc 1) sample_env 5 sample_state (W_LOG_FATAL sample_env) ''boom'' [] =
     Some (Returns sample_state) \<and>
   w_should_log_to_clients low_fatal_env (W_LOG_ERR low_fatal_env) \<and>
   w_log (Suc 1) low_fatal_env 5 quiet_state (W_LOG_FATAL low_fatal_env) ''boom'' [] =
     Some (Returns quiet_state)"
  by (simp add: sample_env_def sample_state_def low_fatal_env_def quiet_state_def)

section \<open>The fatal path\<close>

lemma length_dec_nat: "n < 10 ^ k \<Longrightarrow> 0 < k \<Longrightarrow> length (dec_nat n) \<le> k"
proof (induction k arbitrary: n)
  case 0
  then show ?case by simp
next
  case (Suc k)
  show ?case
  proof (cases "n < 10")
    case True
    then show ?thesis by (subst dec_nat.simps) simp
  next
    case False
    with Suc.prems have k: "0 < k" by (cases k) auto
    from Suc.prems have "n div 10 < 10 ^ k" by (simp add: less_mult_imp_div_less mult.commute)
    from Suc.IH [OF this k] False show ?thesis by (subst dec_nat.simps) simp
  qed
qed

lemma length_fmt_03d:
  assumes "\<bar>i\<bar> < 10 ^ 7"
  shows "length (fmt_03d i) \<le> 8"
proof -
  have "nat \<bar>i\<bar> < 10 ^ 7" using assms by (simp add: nat_less_iff)
  then have "length (dec_nat (nat \<bar>i\<bar>)) \<le> 7" by (intro length_dec_nat) simp_all
  then show ?thesis
    by (cases "i < 0") (simp_all add: fmt_03d_def zero_pad_def abs_if)
qed

lemma clock_ms_bound: "\<bar>clock_ms e k\<bar> < 10 ^ 7"
proof -
  define a where "a = c_int (tv_usec (gettimeofday e k))"
  have "- (2 ^ 31) \<le> a" "a < 2 ^ 31"
    unfolding a_def c_int_def
    using sint_ge [where 'a = 32] sint_lt [where 'a = 32] by simp_all
  then have "\<bar>a\<bar> div 1000 < 10 ^ 7" by (simp add: abs_if) arith
  moreover have "\<bar>c_div a 1000\<bar> = \<bar>a\<bar> div 1000"
    by (cases "a < 0"; cases "a = 0") (simp_all add: c_div_def abs_mult)
  ultimately show ?thesis by (simp add: clock_ms_def a_def)
qed

lemma prefix_fits:
  assumes "length nm \<le> BUFSZ - 77"
  shows "length (line_prefix (clock_text e k) (clock_ms e k) nm) \<le> BUFSZ"
proof -
  have "length (cstr (clock_text e k)) \<le> 63"
    by (simp only: cstr_clock_text) (simp add: clock_text_def)
  moreover have "length (cstr nm) \<le> length nm"
    by (simp add: cstr_def length_takeWhile_le)
  moreover note length_fmt_03d [OF clock_ms_bound, of e k]
  ultimately show ?thesis
    using assms by (simp add: line_prefix_def BUFSZ_def)
qed

lemma vformat_header:
  "vformat ''Fatal error detected at:\<newline>'' [] = Some ''Fatal error detected at:\<newline>''"
  by (simp add: NUL_def)

lemma vformat_frame: "vformat ''%s\<newline>'' [AStr s] = Some (cstr s @ [NL])"
  by (simp add: NUL_def NL_def)

lemma sink_events_level:
  "log_level s' = log_level s \<Longrightarrow> sink_events e s' a t l = sink_events e s a t l"
  by (simp add: sink_events_def)

lemma err_call:
  assumes ne: "W_LOG_ERR e \<noteq> W_LOG_FATAL e"
    and gate: "W_LOG_ERR e \<le> log_level s \<or> w_should_log_to_clients e (W_LOG_ERR e)"
    and valid: "tls_valid s"
    and short: "length (thread_name self s) \<le> BUFSZ - 77"
    and m: "vformat fmt args = Some m"
  shows "w_log (Suc k) e self s (W_LOG_ERR e) fmt args =
           Some (Returns (logged self s
             (sink_events e s (W_LOG_ERR e) (W_LOG_ERR e)
                (log_line (clock_text e (ticks s)) (clock_ms e (ticks s)) (thread_name self s) m))))"
  using w_log_emits [OF gate valid prefix_fits [OF short], of fmt args k] ne m
  by (auto simp: Let_def simp del: w_log.simps)

lemma logged_lines_frame:
  assumes "tls_valid s"
  shows "tls_valid (logged_lines e self s ms) \<and>
         log_level (logged_lines e self s ms) = log_level s \<and>
         bt_calls (logged_lines e self s ms) = bt_calls s \<and>
         thread_name self (logged_lines e self s ms) = thread_name self s \<and>
         ticks (logged_lines e self s ms) = ticks s + length ms"
  using assms
proof (induction ms arbitrary: s)
  case Nil
  then show ?case by simp
next
  case (Cons m ms)
  from Cons.IH [OF logged_valid(1) [OF Cons.prems]] logged_valid(2) [OF Cons.prems]
  show ?case by (simp add: logged_props)
qed

lemma out_logged_lines:
  assumes "tls_valid s"
  shows "out (logged_lines e self s ms) =
           out s @ concat (map (\<lambda>(i, m). sink_events e s (W_LOG_ERR e) (W_LOG_ERR e)
                                  (log_line (clock_text e i) (clock_ms e i) (thread_name self s) m))
                             (enumerate (ticks s) ms))"
  using assms
proof (induction ms arbitrary: s)
  case Nil
  then show ?case by simp
next
  case (Cons m ms)
  define s' where "s' = logged self s
          (sink_events e s (W_LOG_ERR e) (W_LOG_ERR e)
             (log_line (clock_text e (ticks s)) (clock_ms e (ticks s)) (thread_name self s) m))"
  have v: "tls_valid s'" and n: "thread_name self s' = thread_name self s"
    unfolding s'_def using logged_valid [OF Cons.prems] by simp_all
  have l: "log_level s' = log_level s" and t: "ticks s' = Suc (ticks s)"
    and o: "out s' = out s @ sink_events e s (W_LOG_ERR e) (W_LOG_ERR e)
             (log_line (clock_text e (ticks s)) (clock_ms e (ticks s)) (thread_name self s) m)"
    unfolding s'_def by (simp_all add: logged_props)
  have "out (logged_lines e self s (m # ms)) = out (logged_lines e self s' ms)"
    by (simp add: s'_def)
  also note Cons.IH [OF v]
  finally show ?case
    by (simp add: n t o sink_events_level [OF l])
qed

lemma log_frames_eq:
  assumes ne: "W_LOG_ERR e \<noteq> W_LOG_FATAL e"
    and gate: "W_LOG_ERR e \<le> log_level s \<or> w_should_log_to_clients e (W_LOG_ERR e)"
    and valid: "tls_valid s"
    and short: "length (thread_name self s) \<le> BUFSZ - 77"
  shows "log_frames (w_log (Suc k) e self) e s frames =
           Some (Returns (logged_lines e self s (map (\<lambda>f. cstr f @ [NL]) frames)))"
  using gate valid short
proof (induction frames arbitrary: s)
  case Nil
  then show ?case by simp
next
  case (Cons f fs)
  define s' where "s' = logged self s
          (sink_events e s (W_LOG_ERR e) (W_LOG_ERR e)
             (log_line (clock_text e (ticks s)) (clock_ms e (ticks s)) (thread_name self s)
                (cstr f @ [NL])))"
  have c: "w_log (Suc k) e self s (W_LOG_ERR e) ''%s\<newline>'' [AStr f] = Some (Returns s')"
    unfolding s'_def by (rule err_call [OF ne Cons.prems vformat_frame])
  have v: "tls_valid s'" and n: "thread_name self s' = thread_name self s"
    unfolding s'_def using logged_valid [OF Cons.prems(2)] by simp_all
  have l: "log_level s' = log_level s"
    unfolding s'_def by (simp add: logged_props)
  have "log_frames (w_log (Suc k) e self) e s (f # fs) =
          log_frames (w_log (Suc k) e self) e s' fs"
    by (simp add: c del: w_log.simps)
  also have "\<dots> = Some (Returns (logged_lines e self s' (map (\<lambda>f. cstr f @ [NL]) fs)))"
    using Cons.prems by (intro Cons.IH) (simp_all add: l v n)
  finally show ?case by (simp add: s'_def del: w_log.simps)
qed

lemma log_stack_trace_eq:
  assumes ne: "W_LOG_ERR e \<noteq> W_LOG_FATAL e"
    and gate: "W_LOG_ERR e \<le> log_level s \<or> w_should_log_to_clients e (W_LOG_ERR e)"
    and valid: "tls_valid s"
    and short: "length (thread_name self s) \<le> BUFSZ - 77"
  shows "log_stack_trace (w_log (Suc k) e self) e s =
           Some (Returns (if HAVE_BACKTRACE e
                          then logged_lines e self (s\<lparr>bt_calls := bt_calls s + 1\<rparr>)
                                 (trace_messages e)
                          else s))"
proof (cases "HAVE_BACKTRACE e")
  case False
  then show ?thesis by (simp add: log_stack_trace_def del: w_log.simps)
next
  case True
  define s1 where "s1 = s\<lparr>bt_calls := bt_calls s + 1\<rparr>"
  have g1: "W_LOG_ERR e \<le> log_level s1 \<or> w_should_log_to_clients e (W_LOG_ERR e)"
    and v1: "tls_valid s1" and n1: "length (thread_name self s1) \<le> BUFSZ - 77"
    using gate valid short by (simp_all add: s1_def)
  define s2 where "s2 = logged self s1
          (sink_events e s1 (W_LOG_ERR e) (W_LOG_ERR e)
             (log_line (clock_text e (ticks s1)) (clock_ms e (ticks s1)) (thread_name self s1)
                ''Fatal error detected at:\<newline>''))"
  have c: "w_log (Suc k) e self s1 (W_LOG_ERR e) ''Fatal error detected at:\<newline>'' [] =
             Some (Returns s2)"
    unfolding s2_def by (rule err_call [OF ne g1 v1 n1 vformat_header])
  have g2: "W_LOG_ERR e \<le> log_level s2 \<or> w_should_log_to_clients e (W_LOG_ERR e)"
    and v2: "tls_valid s2" and n2: "length (thread_name self s2) \<le> BUFSZ - 77"
    unfolding s2_def using g1 n1 logged_valid [OF v1] by (simp_all add: logged_props)
  have "log_stack_trace (w_log (Suc k) e self) e s =
          log_frames (w_log (Suc k) e self) e s2 (take 24 (callstack e))"
    unfolding log_stack_trace_def Let_def s1_def [symmetric]
    using True by (simp add: c del: w_log.simps)
  also note log_frames_eq [OF ne g2 v2 n2]
  finally show ?thesis
    using True by (simp add: trace_messages_def s2_def s1_def)
qed

lemma fatal_call:
  assumes "W_LOG_ERR e \<noteq> W_LOG_FATAL e"
    and "W_LOG_FATAL e \<le> log_level st \<or> w_should_log_to_clients e (W_LOG_FATAL e)"
    and "W_LOG_ERR e \<le> log_level st \<or> w_should_log_to_clients e (W_LOG_ERR e)"
    and "tls_valid st"
    and "length (thread_name self st) \<le> BUFSZ - 77"
  shows "\<exists>line st'.
           w_log (Suc (Suc k)) e self st (W_LOG_FATAL e) fmt args = Some (Aborts st') \<and>
           (\<forall>m. vformat fmt args = Some m \<longrightarrow>
              line = log_line (clock_text e (ticks st)) (clock_ms e (ticks st))
                       (thread_name self st) m) \<and>
           out st' =
             out st @ sink_events e st (W_LOG_FATAL e) (W_LOG_ERR e) line @
             (if HAVE_BACKTRACE e then
                concat (map (\<lambda>(i, m). sink_events e st (W_LOG_ERR e) (W_LOG_ERR e)
                                (log_line (clock_text e i) (clock_ms e i) (thread_name self st) m))
                          (enumerate (ticks st + 1) (trace_messages e)))
              else []) \<and>
           bt_calls st' = bt_calls st + (if HAVE_BACKTRACE e then 1 else 0)"
proof -
  from w_log_emits [OF assms(2,4) prefix_fits [OF assms(5)], of fmt args "Suc k"]
  obtain line where
    l: "\<forall>m. vformat fmt args = Some m \<longrightarrow>
          line = log_line (clock_text e (ticks st)) (clock_ms e (ticks st))
                   (thread_name self st) m"
    and w: "w_log (Suc (Suc k)) e self st (W_LOG_FATAL e) fmt args =
             (case log_stack_trace (w_log (Suc k) e self) e
                     (logged self st (sink_events e st (W_LOG_FATAL e) (W_LOG_ERR e) line)) of
                Some (Returns st6) \<Rightarrow> Some (Aborts st6)
              | r \<Rightarrow> r)"
    by (auto simp: Let_def simp del: w_log.simps)
  define st5 where "st5 = logged self st (sink_events e st (W_LOG_FATAL e) (W_LOG_ERR e) line)"
  have l5: "log_level st5 = log_level st" and t5: "ticks st5 = ticks st + 1"
    and o5: "out st5 = out st @ sink_events e st (W_LOG_FATAL e) (W_LOG_ERR e) line"
    and b5: "bt_calls st5 = bt_calls st"
    unfolding st5_def by (simp_all add: logged_props)
  have v5: "tls_valid st5" and n5: "thread_name self st5 = thread_name self st"
    unfolding st5_def using logged_valid [OF assms(4)] by simp_all
  have g5: "W_LOG_ERR e \<le> log_level st5 \<or> w_should_log_to_clients e (W_LOG_ERR e)"
    using assms(3) by (simp add: l5)
  have s5: "length (thread_name self st5) \<le> BUFSZ - 77"
    using assms(5) by (simp add: n5)
  define st' where "st' = (if HAVE_BACKTRACE e
                          then logged_lines e self (st5\<lparr>bt_calls := bt_calls st5 + 1\<rparr>)
                                 (trace_messages e)
                          else st5)"
  have r: "w_log (Suc (Suc k)) e self st (W_LOG_FATAL e) fmt args = Some (Aborts st')"
    unfolding w st5_def [symmetric] log_stack_trace_eq [OF assms(1) g5 v5 s5] st'_def
    by simp
  define st6 where "st6 = st5\<lparr>bt_calls := bt_calls st5 + 1\<rparr>"
  have v6: "tls_valid st6" using v5 by (simp add: st6_def)
  have l6: "log_level st6 = log_level st" "ticks st6 = ticks st + 1"
    "thread_name self st6 = thread_name self st" "out st6 = out st5" "bt_calls st6 = bt_calls st + 1"
    by (simp_all add: st6_def l5 t5 n5 b5)
  have o: "out st' =
             out st @ sink_events e st (W_LOG_FATAL e) (W_LOG_ERR e) line @
             (if HAVE_BACKTRACE e then
                concat (map (\<lambda>(i, m). sink_events e st (W_LOG_ERR e) (W_LOG_ERR e)
                                (log_line (clock_text e i) (clock_ms e i) (thread_name self st) m))
                          (enumerate (ticks st + 1) (trace_messages e)))
              else [])"
  proof (cases "HAVE_BACKTRACE e")
    case False
    then show ?thesis by (simp add: st'_def o5)
  next
    case True
    then have "out st' = out (logged_lines e self st6 (trace_messages e))"
      by (simp add: st'_def st6_def)
    also note out_logged_lines [OF v6]
    finally show ?thesis
      using True by (simp add: l6 o5 sink_events_level [OF l6(1)])
  qed
  have b: "bt_calls st' = bt_calls st + (if HAVE_BACKTRACE e then 1 else 0)"
  proof (cases "HAVE_BACKTRACE e")
    case False
    then show ?thesis by (simp add: st'_def b5)
  next
    case True
    then have "bt_calls st' = bt_calls (logged_lines e self st6 (trace_messages e))"
      by (simp add: st'_def st6_def)
    with logged_lines_frame [OF v6, of e self "trace_messages e"] True
    show ?thesis by (simp add: l6)
  qed
  from r l o b show ?thesis by blast
qed

text \<open>
  C1: a call with the fatal severity for which a gate is open, in a process in which
  the error severity passes a gate too, ends in \<open>abort\<close> for every bound of at least
  two on the call depth: it does not return.  Before that the sinks receive, in this
  order, the line of the call itself, then, where the platform can capture the
  stack, the header line and one line for each of the first 24 frames in the order
  of capture, each formatted with its own reading of the clock and passed through
  the gates at error severity; \<open>backtrace\<close> is called once.  Without stack capture
  nothing follows the line of the call.
\<close>

theorem w_log_fatal_trace:
  assumes "W_LOG_ERR e \<noteq> W_LOG_FATAL e"
    and "W_LOG_FATAL e \<le> log_level st \<or> w_should_log_to_clients e (W_LOG_FATAL e)"
    and "W_LOG_ERR e \<le> log_level st \<or> w_should_log_to_clients e (W_LOG_ERR e)"
    and "tls_valid st"
    and "length (thread_name self st) \<le> BUFSZ - 77"
  shows "\<exists>line st'.
           w_log (Suc (Suc k)) e self st (W_LOG_FATAL e) fmt args = Some (Aborts st') \<and>
           (\<forall>m. vformat fmt args = Some m \<longrightarrow>
              line = log_line (clock_text e (ticks st)) (clock_ms e (ticks st))
                       (thread_name self st) m) \<and>
           out st' =
             out st @ sink_events e st (W_LOG_FATAL e) (W_LOG_ERR e) line @
             (if HAVE_BACKTRACE e then
                concat (map (\<lambda>(i, m). sink_events e st (W_LOG_ERR e) (W_LOG_ERR e)
                                (log_line (clock_text e i) (clock_ms e i) (thread_name self st) m))
                          (enumerate (ticks st + 1) (trace_messages e)))
              else []) \<and>
           bt_calls st' = bt_calls st + (if HAVE_BACKTRACE e then 1 else 0)"
  using assms by (rule fatal_call)

theorem w_log_fatal_trace_witness:
  "W_LOG_ERR open_env \<noteq> W_LOG_FATAL open_env \<and>
   (W_LOG_FATAL open_env \<le> log_level verbose_state \<and>
    w_should_log_to_clients open_env (W_LOG_FATAL open_env)) \<and>
   (W_LOG_ERR open_env \<le> log_level verbose_state \<and>
    w_should_log_to_clients open_env (W_LOG_ERR open_env)) \<and>
   tls_valid verbose_state \<and>
   length (thread_name 5 verbose_state) \<le> BUFSZ - 77 \<and>
   HAVE_BACKTRACE open_env \<and>
   callstack open_env = [''w_log+0x1f'', ''main+0x10''] \<and>
   (\<exists>st'. w_log (Suc (Suc 0)) open_env 5 verbose_state (W_LOG_FATAL open_env)
            ''boom %d'' [AInt 9] = Some (Aborts st') \<and>
      out st' =
        [Stderr ''2012-05-01T12:00:00,042: [5] boom 9\<newline>'',
         ToClients 1 ''2012-05-01T12:00:00,042: [5] boom 9\<newline>'',
         Stderr ''2012-05-01T12:00:01,042: [5] Fatal error detected at:\<newline>'',
         ToClients 1 ''2012-05-01T12:00:01,042: [5] Fatal error detected at:\<newline>'',
         Stderr ''2012-05-01T12:00:02,042: [5] w_log+0x1f\<newline>'',
         ToClients 1 ''2012-05-01T12:00:02,042: [5] w_log+0x1f\<newline>'',
         Stderr ''2012-05-01T12:00:03,042: [5] main+0x10\<newline>'',
         ToClients 1 ''2012-05-01T12:00:03,042: [5] main+0x10\<newline>''] \<and>
      bt_calls st' = 1)"
proof -
  have c: "W_LOG_ERR open_env = 1" "W_LOG_FATAL open_env = 3" "log_level verbose_state = 3"
    "w_should_log_to_clients open_env 1" "w_should_log_to_clients open_env 3"
    "HAVE_BACKTRACE open_env" "callstack open_env = [''w_log+0x1f'', ''main+0x10'']"
    "ticks verbose_state = 0" "out verbose_state = []" "bt_calls verbose_state = 0"
    by (simp_all add: open_env_def sample_env_def verbose_state_def sample_state_def)
  have v: "tls_valid verbose_state"
    by (simp add: tls_valid_def verbose_state_def sample_state_def)
  have n: "thread_name 5 verbose_state = ''5''"
    by (simp add: thread_name_def verbose_state_def sample_state_def dec_nat.simps digit_def)
  have t: "clock_text open_env 0 = ''2012-05-01T12:00:00''"
    "clock_text open_env (Suc 0) = ''2012-05-01T12:00:01''"
    "clock_text open_env 2 = ''2012-05-01T12:00:02''"
    "clock_text open_env 3 = ''2012-05-01T12:00:03''"
    by (simp_all add: clock_text_def open_env_def sample_env_def
        cstr_def NUL_def dec_nat.simps digit_def)
  have ms: "clock_ms open_env k = 42" for k
    by (simp add: clock_ms_def open_env_def sample_env_def c_int_def c_div_def)
  have m: "vformat ''boom %d'' [AInt 9] = Some ''boom 9''"
    by (simp add: NUL_def fmt_d_def dec_nat.simps digit_def)
  have tm: "trace_messages open_env =
      [''Fatal error detected at:\<newline>'', ''w_log+0x1f\<newline>'', ''main+0x10\<newline>'']"
    by (simp add: trace_messages_def c cstr_def NUL_def NL_def)
  have p: "line_prefix tb 42 ''5'' = cstr tb @ '',042: [5] ''" for tb
    by (simp add: line_prefix_def cstr_def NUL_def fmt_03d_def zero_pad_def dec_nat.simps
        digit_def)
  have ll: "log_line ''2012-05-01T12:00:00'' 42 ''5'' ''boom 9'' =
              ''2012-05-01T12:00:00,042: [5] boom 9\<newline>''"
    "log_line ''2012-05-01T12:00:01'' 42 ''5'' ''Fatal error detected at:\<newline>'' =
       ''2012-05-01T12:00:01,042: [5] Fatal error detected at:\<newline>''"
    "log_line ''2012-05-01T12:00:02'' 42 ''5'' ''w_log+0x1f\<newline>'' =
       ''2012-05-01T12:00:02,042: [5] w_log+0x1f\<newline>''"
    "log_line ''2012-05-01T12:00:03'' 42 ''5'' ''main+0x10\<newline>'' =
       ''2012-05-01T12:00:03,042: [5] main+0x10\<newline>''"
    by (simp_all add: log_line_def with_newline_def p cstr_def NUL_def BUFSZ_def NL_def)
  have h1: "W_LOG_ERR open_env \<noteq> W_LOG_FATAL open_env" by (simp add: c)
  have h2: "W_LOG_FATAL open_env \<le> log_level verbose_state \<or>
            w_should_log_to_clients open_env (W_LOG_FATAL open_env)" by (simp add: c)
  have h3: "W_LOG_ERR open_env \<le> log_level verbose_state \<or>
            w_should_log_to_clients open_env (W_LOG_ERR open_env)" by (simp add: c)
  have h5: "length (thread_name 5 verbose_state) \<le> BUFSZ - 77"
    by (simp add: n BUFSZ_def)
  from w_log_fatal_trace [OF h1 h2 h3 v h5, of 0 "''boom %d''" "[AInt 9]"]
  obtain line st' where
    r: "w_log (Suc (Suc 0)) open_env 5 verbose_state (W_LOG_FATAL open_env)
          ''boom %d'' [AInt 9] = Some (Aborts st')"
    and l: "\<forall>m. vformat ''boom %d'' [AInt 9] = Some m \<longrightarrow>
              line = log_line (clock_text open_env (ticks verbose_state))
                       (clock_ms open_env (ticks verbose_state)) (thread_name 5 verbose_state) m"
    and o: "out st' =
             out verbose_state @
             sink_events open_env verbose_state (W_LOG_FATAL open_env) (W_LOG_ERR open_env) line @
             (if HAVE_BACKTRACE open_env then
                concat (map (\<lambda>(i, m). sink_events open_env verbose_state
                                (W_LOG_ERR open_env) (W_LOG_ERR open_env)
                                (log_line (clock_text open_env i) (clock_ms open_env i)
                                   (thread_name 5 verbose_state) m))
                          (enumerate (ticks verbose_state + 1) (trace_messages open_env)))
              else [])"
    and b: "bt_calls st' = bt_calls verbose_state + (if HAVE_BACKTRACE open_env then 1 else 0)"
    by blast
  from l m have line: "line = ''2012-05-01T12:00:00,042: [5] boom 9\<newline>''"
    by (simp add: c n t ms ll del: vformat.simps)
  have o': "out st' =
        [Stderr ''2012-05-01T12:00:00,042: [5] boom 9\<newline>'',
         ToClients 1 ''2012-05-01T12:00:00,042: [5] boom 9\<newline>'',
         Stderr ''2012-05-01T12:00:01,042: [5] Fatal error detected at:\<newline>'',
         ToClients 1 ''2012-05-01T12:00:01,042: [5] Fatal error detected at:\<newline>'',
         Stderr ''2012-05-01T12:00:02,042: [5] w_log+0x1f\<newline>'',
         ToClients 1 ''2012-05-01T12:00:02,042: [5] w_log+0x1f\<newline>'',
         Stderr ''2012-05-01T12:00:03,042: [5] main+0x10\<newline>'',
         ToClients 1 ''2012-05-01T12:00:03,042: [5] main+0x10\<newline>'']"
    unfolding o line tm
    by (simp add: c n sink_events_def t ms ll numeral_2_eq_2 [symmetric] numeral_3_eq_3 [symmetric])
  have b': "bt_calls st' = 1" using b by (simp add: c)
  from r o' b' have "\<exists>st'. w_log (Suc (Suc 0)) open_env 5 verbose_state (W_LOG_FATAL open_env)
            ''boom %d'' [AInt 9] = Some (Aborts st') \<and>
      out st' =
        [Stderr ''2012-05-01T12:00:00,042: [5] boom 9\<newline>'',
         ToClients 1 ''2012-05-01T12:00:00,042: [5] boom 9\<newline>'',
         Stderr ''2012-05-01T12:00:01,042: [5] Fatal error detected at:\<newline>'',
         ToClients 1 ''2012-05-01T12:00:01,042: [5] Fatal error detected at:\<newline>'',
         Stderr ''2012-05-01T12:00:02,042: [5] w_log+0x1f\<newline>'',
         ToClients 1 ''2012-05-01T12:00:02,042: [5] w_log+0x1f\<newline>'',
         Stderr ''2012-05-01T12:00:03,042: [5] main+0x10\<newline>'',
         ToClients 1 ''2012-05-01T12:00:03,042: [5] main+0x10\<newline>''] \<and>
      bt_calls st' = 1"
    by blast
  with h1 v h5 show ?thesis by (simp add: c del: w_log.simps)
qed

section \<open>Properties of the crash handler\<close>

lemma fault_reason_table:
  assumes "distinct [SIGILL d, SIGFPE d, SIGSEGV d]"
    and "SIGBUS d \<notin> {Some (SIGILL d), Some (SIGFPE d), Some (SIGSEGV d)}"
  shows "fault_reason d (Some i) =
           (case map_of (fault_table d) (si_signo i, si_code i) of None \<Rightarrow> [] | Some r \<Rightarrow> r)"
proof -
  consider (ill) "si_signo i = SIGILL d" | (fpe) "si_signo i = SIGFPE d"
    | (segv) "si_signo i = SIGSEGV d" | (bus) "Some (si_signo i) = SIGBUS d"
    | (other) "si_signo i \<notin> {SIGILL d, SIGFPE d, SIGSEGV d}" "Some (si_signo i) \<noteq> SIGBUS d"
    by auto
  then show ?thesis
  proof cases
    case ill
    with assms show ?thesis
      by (cases "SIGBUS d") (simp_all add: fault_reason_def fault_table_def)
  next
    case fpe
    with assms show ?thesis
      by (cases "SIGBUS d") (simp_all add: fault_reason_def fault_table_def)
  next
    case segv
    with assms show ?thesis
      by (cases "SIGBUS d") (simp_all add: fault_reason_def fault_table_def)
  next
    case bus
    with assms show ?thesis
      by (cases "SIGBUS d") (simp_all add: fault_reason_def fault_table_def)
  next
    case other
    then show ?thesis
      by (cases "SIGBUS d") (simp_all add: fault_reason_def fault_table_def)
  qed
qed

lemma fault_reason_unknown:
  assumes "(si_signo i, si_code i) \<notin> fst ` set (fault_table d)"
  shows "fault_reason d (Some i) = []"
  using assms
  by (cases "SIGBUS d") (simp_all add: fault_reason_def fault_table_def)

lemma no_NUL_ifI:
  "NUL \<notin> set a \<Longrightarrow> NUL \<notin> set b \<Longrightarrow> NUL \<notin> set (if c then a else b)"
  by simp

lemma cstr_fault_reason: "cstr (fault_reason d si) = fault_reason d si"
proof (rule cstr_id)
  show "NUL \<notin> set (fault_reason d si)"
  proof (cases si)
    case None
    then show ?thesis by (simp add: fault_reason_def)
  next
    case (Some i)
    show ?thesis
      unfolding fault_reason_def Some option.case
      by (intro no_NUL_ifI) (simp_all add: NUL_def)
  qed
qed

lemma vformat_crash:
  "vformat ''Terminating due to signal %d %s. %s (%p)\<newline>''
     [AInt signo, AStr sig, AStr reason, APtr p] =
   Some (''Terminating due to signal '' @ fmt_d signo @ '' '' @ cstr sig @ ''. '' @
         cstr reason @ '' ('' @ fmt_p p @ '')\<newline>'')"
  by (simp add: NUL_def)

lemma fault_reason_segv:
  assumes "SIGSEGV d \<noteq> SIGILL d" and "SIGSEGV d \<noteq> SIGFPE d"
    and "si_signo i = SIGSEGV d" and "si_code i = SEGV_MAPERR d"
  shows "fault_reason d (Some i) = ''address not mapped to object''"
  using assms by (simp add: fault_reason_def)

text \<open>
  With the signal numbers of the platform distinct, the reason that the handler
  decodes is the entry of the fault table for the pair of \<open>si_signo\<close> and
  \<open>si_code\<close>, and the empty string when the table has no such entry or no fault
  information was delivered; for \<open>SIGSEGV\<close> with \<open>SEGV_MAPERR\<close> it is
  ``address not mapped to object''.  The handler then logs, at fatal severity, the
  text ``Terminating due to signal'' with the signal number, the text of
  \<open>strsignal\<close>, the reason and the fault value: in a process in which the fatal
  and the error severity each pass a gate, the call ends in \<open>abort\<close>, and the
  first line that reaches the sinks is the line formatted from that text.
\<close>

lemma crash_handler_decodes:
  assumes "distinct [SIGILL d, SIGFPE d, SIGSEGV d]"
    and "SIGBUS d \<notin> {Some (SIGILL d), Some (SIGFPE d), Some (SIGSEGV d)}"
  shows "fault_reason d si =
           (case si of
              None \<Rightarrow> []
            | Some i \<Rightarrow>
                (case map_of (fault_table d) (si_signo i, si_code i) of
                   None \<Rightarrow> []
                 | Some r \<Rightarrow> r)) \<and>
         (\<forall>i. si = Some i \<and> si_signo i = SIGSEGV d \<and> si_code i = SEGV_MAPERR d \<longrightarrow>
              fault_reason d si = ''address not mapped to object'') \<and>
         (\<forall>i. si = Some i \<and> (si_signo i, si_code i) \<notin> fst ` set (fault_table d) \<longrightarrow>
              fault_reason d si = []) \<and>
         (W_LOG_ERR e \<noteq> W_LOG_FATAL e \<and>
          (W_LOG_FATAL e \<le> log_level st \<or> w_should_log_to_clients e (W_LOG_FATAL e)) \<and>
          (W_LOG_ERR e \<le> log_level st \<or> w_should_log_to_clients e (W_LOG_ERR e)) \<and>
          tls_valid st \<and> length (thread_name self st) \<le> BUFSZ - 77 \<longrightarrow>
          (\<exists>st' rest.
             crash_handler (Suc (Suc k)) d e self st signo si = Some (Aborts st') \<and>
             out st' =
               out st @
               sink_events e st (W_LOG_FATAL e) (W_LOG_ERR e)
                 (log_line (clock_text e (ticks st)) (clock_ms e (ticks st)) (thread_name self st)
                    (''Terminating due to signal '' @ fmt_d signo @ '' '' @
                     cstr (strsignal e signo) @ ''. '' @ fault_reason d si @ '' ('' @
                     fmt_p (case si of None \<Rightarrow> 0 | Some i \<Rightarrow> si_value i) @ '')\<newline>'')) @
               rest))"
proof -
  have table: "fault_reason d si =
           (case si of
              None \<Rightarrow> []
            | Some i \<Rightarrow>
                (case map_of (fault_table d) (si_signo i, si_code i) of
                   None \<Rightarrow> []
                 | Some r \<Rightarrow> r))"
  proof (cases si)
    case None
    then show ?thesis by (simp add: fault_reason_def)
  next
    case (Some i)
    then show ?thesis using fault_reason_table [OF assms, of i] by simp
  qed
  have segv: "fault_reason d si = ''address not mapped to object''"
    if "si = Some i" "si_signo i = SIGSEGV d" "si_code i = SEGV_MAPERR d" for i
    using fault_reason_segv [OF _ _ that(2,3)] assms(1) that(1) by simp
  have unknown: "fault_reason d si = []"
    if "si = Some i" "(si_signo i, si_code i) \<notin> fst ` set (fault_table d)" for i
    using fault_reason_unknown [OF that(2)] that(1) by simp
  have logs: "\<exists>st' rest.
             crash_handler (Suc (Suc k)) d e self st signo si = Some (Aborts st') \<and>
             out st' =
               out st @
               sink_events e st (W_LOG_FATAL e) (W_LOG_ERR e)
                 (log_line (clock_text e (ticks st)) (clock_ms e (ticks st)) (thread_name self st)
                    (''Terminating due to signal '' @ fmt_d signo @ '' '' @
                     cstr (strsignal e signo) @ ''. '' @ fault_reason d si @ '' ('' @
                     fmt_p (case si of None \<Rightarrow> 0 | Some i \<Rightarrow> si_value i) @ '')\<newline>'')) @
               rest"
    if h: "W_LOG_ERR e \<noteq> W_LOG_FATAL e"
      "W_LOG_FATAL e \<le> log_level st \<or> w_should_log_to_clients e (W_LOG_FATAL e)"
      "W_LOG_ERR e \<le> log_level st \<or> w_should_log_to_clients e (W_LOG_ERR e)"
      "tls_valid st" "length (thread_name self st) \<le> BUFSZ - 77"
  proof -
    define args where "args = [AInt signo, AStr (strsignal e signo), AStr (fault_reason d si),
        APtr (case si of None \<Rightarrow> 0 | Some i \<Rightarrow> si_value i)]"
    define msg where "msg = ''Terminating due to signal '' @ fmt_d signo @ '' '' @
                     cstr (strsignal e signo) @ ''. '' @ fault_reason d si @ '' ('' @
                     fmt_p (case si of None \<Rightarrow> 0 | Some i \<Rightarrow> si_value i) @ '')\<newline>''"
    have v: "vformat ''Terminating due to signal %d %s. %s (%p)\<newline>'' args = Some msg"
      unfolding args_def msg_def vformat_crash cstr_fault_reason ..
    from fatal_call [OF h, of k "''Terminating due to signal %d %s. %s (%p)\<newline>''" args]
    obtain line st' where
      r: "w_log (Suc (Suc k)) e self st (W_LOG_FATAL e)
            ''Terminating due to signal %d %s. %s (%p)\<newline>'' args = Some (Aborts st')"
      and l: "\<forall>m. vformat ''Terminating due to signal %d %s. %s (%p)\<newline>'' args = Some m \<longrightarrow>
                line = log_line (clock_text e (ticks st)) (clock_ms e (ticks st))
                         (thread_name self st) m"
      and o: "out st' =
             out st @ sink_events e st (W_LOG_FATAL e) (W_LOG_ERR e) line @
             (if HAVE_BACKTRACE e then
                concat (map (\<lambda>(i, m). sink_events e st (W_LOG_ERR e) (W_LOG_ERR e)
                                (log_line (clock_text e i) (clock_ms e i) (thread_name self st) m))
                          (enumerate (ticks st + 1) (trace_messages e)))
              else [])"
      by blast
    from l v have "line = log_line (clock_text e (ticks st)) (clock_ms e (ticks st))
                         (thread_name self st) msg"
      by blast
    with r o show ?thesis
      unfolding crash_handler_def args_def [symmetric] msg_def [symmetric]
      by (intro exI [of _ st']) (simp del: w_log.simps vformat.simps)
  qed
  from table segv unknown logs show ?thesis by blast
qed

lemma crash_handler_decodes_example:
  "distinct [SIGILL linux_sigdefs, SIGFPE linux_sigdefs, SIGSEGV linux_sigdefs] \<and>
   SIGBUS linux_sigdefs \<notin>
     {Some (SIGILL linux_sigdefs), Some (SIGFPE linux_sigdefs), Some (SIGSEGV linux_sigdefs)} \<and>
   si_signo segv_info = SIGSEGV linux_sigdefs \<and> si_code segv_info = SEGV_MAPERR linux_sigdefs \<and>
   fault_reason linux_sigdefs (Some segv_info) = ''address not mapped to object'' \<and>
   (si_signo (segv_info\<lparr>si_code := 99\<rparr>), si_code (segv_info\<lparr>si_code := 99\<rparr>)) \<notin>
     fst ` set (fault_table linux_sigdefs) \<and>
   fault_reason linux_sigdefs (Some (segv_info\<lparr>si_code := 99\<rparr>)) = [] \<and>
   (\<exists>st' rest.
      crash_handler (Suc (Suc 0)) linux_sigdefs open_env 5 verbose_state 11 (Some segv_info) =
        Some (Aborts st') \<and>
      out st' =
        [Stderr (''2012-05-01T12:00:00,042: [5] Terminating due to signal 11 '' @
                 ''Segmentation fault. address not mapped to object (0xff)\<newline>''),
         ToClients 1 (''2012-05-01T12:00:00,042: [5] Terminating due to signal 11 '' @
                 ''Segmentation fault. address not mapped to object (0xff)\<newline>'')] @ rest)"
proof -
  have d1: "distinct [SIGILL linux_sigdefs, SIGFPE linux_sigdefs, SIGSEGV linux_sigdefs]"
    by (simp add: linux_sigdefs_def)
  have d2: "SIGBUS linux_sigdefs \<notin>
     {Some (SIGILL linux_sigdefs), Some (SIGFPE linux_sigdefs), Some (SIGSEGV linux_sigdefs)}"
    by (simp add: linux_sigdefs_def)
  have s1: "si_signo segv_info = SIGSEGV linux_sigdefs"
    "si_code segv_info = SEGV_MAPERR linux_sigdefs"
    by (simp_all add: linux_sigdefs_def segv_info_def)
  have u: "(si_signo (segv_info\<lparr>si_code := 99\<rparr>), si_code (segv_info\<lparr>si_code := 99\<rparr>)) \<notin>
     fst ` set (fault_table linux_sigdefs)"
    by (simp add: fault_table_def linux_sigdefs_def segv_info_def)
  have c: "W_LOG_ERR open_env = 1" "W_LOG_FATAL open_env = 3" "log_level verbose_state = 3"
    "w_should_log_to_clients open_env 1" "w_should_log_to_clients open_env 3"
    "ticks verbose_state = 0" "out verbose_state = []"
    "strsignal open_env 11 = ''Segmentation fault''" "si_value segv_info = 255"
    by (simp_all add: open_env_def sample_env_def verbose_state_def sample_state_def
        segv_info_def)
  have v: "tls_valid verbose_state"
    by (simp add: tls_valid_def verbose_state_def sample_state_def)
  have n: "thread_name 5 verbose_state = ''5''"
    by (simp add: thread_name_def verbose_state_def sample_state_def dec_nat.simps digit_def)
  have t: "clock_text open_env 0 = ''2012-05-01T12:00:00''" "clock_ms open_env 0 = 42"
    by (simp_all add: clock_text_def clock_ms_def open_env_def sample_env_def
        cstr_def NUL_def dec_nat.simps digit_def c_int_def c_div_def)
  have h: "W_LOG_ERR open_env \<noteq> W_LOG_FATAL open_env \<and>
          (W_LOG_FATAL open_env \<le> log_level verbose_state \<or>
           w_should_log_to_clients open_env (W_LOG_FATAL open_env)) \<and>
          (W_LOG_ERR open_env \<le> log_level verbose_state \<or>
           w_should_log_to_clients open_env (W_LOG_ERR open_env)) \<and>
          tls_valid verbose_state \<and> length (thread_name 5 verbose_state) \<le> BUFSZ - 77"
    by (simp add: c v n BUFSZ_def)
  note th = crash_handler_decodes [OF d1 d2, of "Some segv_info" open_env verbose_state 5 0 11]
  from th s1 have r: "fault_reason linux_sigdefs (Some segv_info) = ''address not mapped to object''"
    by blast
  from crash_handler_decodes [OF d1 d2, of "Some (segv_info\<lparr>si_code := 99\<rparr>)"] u
  have e: "fault_reason linux_sigdefs (Some (segv_info\<lparr>si_code := 99\<rparr>)) = []"
    by blast
  from th h obtain st' rest where
    a: "crash_handler (Suc (Suc 0)) linux_sigdefs open_env 5 verbose_state 11 (Some segv_info) =
          Some (Aborts st')"
    and o: "out st' =
               out verbose_state @
               sink_events open_env verbose_state (W_LOG_FATAL open_env) (W_LOG_ERR open_env)
                 (log_line (clock_text open_env (ticks verbose_state))
                    (clock_ms open_env (ticks verbose_state)) (thread_name 5 verbose_state)
                    (''Terminating due to signal '' @ fmt_d 11 @ '' '' @
                     cstr (strsignal open_env 11) @ ''. '' @
                     fault_reason linux_sigdefs (Some segv_info) @ '' ('' @
                     fmt_p (case Some segv_info of None \<Rightarrow> 0 | Some i \<Rightarrow> si_value i) @
                     '')\<newline>'')) @
               rest"
    by blast
  have f: "fmt_d 11 = ''11''" "fmt_p 255 = ''0xff''" "fmt_03d 42 = ''042''"
    by (simp_all add: fmt_d_def fmt_p_def fmt_03d_def zero_pad_def dec_nat.simps hex_nat.simps
        digit_def)
  have o': "out st' =
        [Stderr (''2012-05-01T12:00:00,042: [5] Terminating due to signal 11 '' @
                 ''Segmentation fault. address not mapped to object (0xff)\<newline>''),
         ToClients 1 (''2012-05-01T12:00:00,042: [5] Terminating due to signal 11 '' @
                 ''Segmentation fault. address not mapped to object (0xff)\<newline>'')] @ rest"
    unfolding o r
    by (simp add: c n t f sink_events_def log_line_def with_newline_def line_prefix_def
        cstr_def NUL_def NL_def BUFSZ_def)
  from a o' have "\<exists>st' rest.
      crash_handler (Suc (Suc 0)) linux_sigdefs open_env 5 verbose_state 11 (Some segv_info) =
        Some (Aborts st') \<and>
      out st' =
        [Stderr (''2012-05-01T12:00:00,042: [5] Terminating due to signal 11 '' @
                 ''Segmentation fault. address not mapped to object (0xff)\<newline>''),
         ToClients 1 (''2012-05-01T12:00:00,042: [5] Terminating due to signal 11 '' @
                 ''Segmentation fault. address not mapped to object (0xff)\<newline>'')] @ rest"
    by blast
  with d1 d2 s1 r u e show ?thesis by blast
qed

text \<open>
  C8 does not hold of the code for every fault.  The decoding is as claimed:
  \<open>SIGSEGV\<close> with \<open>SEGV_MAPERR\<close> gives ``address not mapped to object''.  But the
  handler's message passes the gates of \<open>w_log\<close> with the fatal value: in the
  default process (\<open>log_level = W_LOG_ERR\<close>, the fatal severity numbered above the
  error severity) the handler emits nothing and returns to the faulting context with
  the state unchanged, and likewise with the fatal severity numbered below the error
  severity once the level is below the fatal value.
\<close>

theorem crash_handler_silent:
  "fault_reason linux_sigdefs (Some segv_info) = ''address not mapped to object'' \<and>
   crash_handler (Suc (Suc 0)) linux_sigdefs sample_env 5 sample_state 11 (Some segv_info) =
     Some (Returns sample_state) \<and>
   crash_handler (Suc (Suc 0)) linux_sigdefs low_fatal_env 5 quiet_state 11 (Some segv_info) =
     Some (Returns quiet_state)"
proof -
  have r: "fault_reason linux_sigdefs (Some segv_info) = ''address not mapped to object''"
    by (rule fault_reason_segv) (simp_all add: linux_sigdefs_def segv_info_def)
  have a: "crash_handler (Suc (Suc 0)) linux_sigdefs sample_env 5 sample_state 11
             (Some segv_info) = Some (Returns sample_state)"
    unfolding crash_handler_def
    by (rule w_log_gates_closed) (simp_all add: sample_env_def sample_state_def)
  have b: "crash_handler (Suc (Suc 0)) linux_sigdefs low_fatal_env 5 quiet_state 11
             (Some segv_info) = Some (Returns quiet_state)"
    unfolding crash_handler_def
    by (rule w_log_gates_closed)
       (simp_all add: low_fatal_env_def sample_env_def quiet_state_def sample_state_def)
  from r a b show ?thesis by blast
qed

end
